theory Spec2Isabelle
  imports Complex_Main "HOL-Library.Word"
begin

section \<open>Python values used by the SDK\<close>

text \<open>
  The SDK (\<^verbatim>\<open>sdk/python_example.py\<close>) exchanges amounts as decimal strings and converts
  them with the builtins \<^verbatim>\<open>int\<close> and \<^verbatim>\<open>str\<close>. Strings are lists of characters with code
  points below 256, Python's unbounded integers are \<^typ>\<open>int\<close>, and every exception is a
  value of type \<open>error\<close>. The characters that \<^verbatim>\<open>int\<close> and \<^verbatim>\<open>float\<close> skip around a
  literal are the blank, the control characters 9 to 13, and the code points 0x85 and 0xA0.
  CPython converts between strings and integers only up to a number of decimal digits,
  4300 unless the interpreter is configured otherwise, and raises \<^verbatim>\<open>ValueError\<close> beyond it.
\<close>

datatype error =
    ValueError
  | OverflowError
  | ZeroDivisionError
  | KeyError string
  | GenericException string

definition is_space :: "char \<Rightarrow> bool" where
  "is_space c =
     (c \<in> set [CHR '' '', CHR 0x09, CHR 0x0A, CHR 0x0B, CHR 0x0C, CHR 0x0D, CHR 0x85, CHR 0xA0])"

definition strip :: "string \<Rightarrow> string" where
  "strip s = rev (dropWhile is_space (rev (dropWhile is_space s)))"

definition is_digit :: "char \<Rightarrow> bool" where
  "is_digit c = (c \<in> set ''0123456789'')"

definition digit_val :: "char \<Rightarrow> nat" where
  "digit_val c = of_char c - 48"

definition digit_char :: "nat \<Rightarrow> char" where
  "digit_char d = ''0123456789'' ! d"

text \<open>A digit part of a numeric literal: digits, with single underscores between digits.\<close>

fun valid_digits :: "string \<Rightarrow> bool" where
  "valid_digits [] = False"
| "valid_digits [c] = is_digit c"
| "valid_digits (c # d # cs) =
     (is_digit c \<and> (if d = CHR ''_'' then valid_digits cs else valid_digits (d # cs)))"

definition digits_val :: "string \<Rightarrow> nat" where
  "digits_val s = foldl (\<lambda>a c. 10 * a + digit_val c) 0 (filter (\<lambda>c. c \<noteq> CHR ''_'') s)"

text \<open>The number of digits of a digit part; underscores do not count, leading zeros do.\<close>

definition ndigits :: "string \<Rightarrow> nat" where
  "ndigits s = length (filter (\<lambda>c. c \<noteq> CHR ''_'') s)"

text \<open>The default of \<^verbatim>\<open>sys.get_int_max_str_digits()\<close>.\<close>

definition int_max_str_digits :: nat where
  "int_max_str_digits = 4300"

text \<open>The digit part of an integer literal: it must be well formed and have no more digits
  than the limit.\<close>

definition int_literal :: "string \<Rightarrow> error + nat" where
  "int_literal ds =
     (if \<not> valid_digits ds then Inl ValueError
      else if int_max_str_digits < ndigits ds then Inl ValueError
      else Inr (digits_val ds))"

text \<open>\<^verbatim>\<open>int(s)\<close> for a string: surrounding whitespace is dropped, a sign is optional,
  anything else than a digit part within the limit raises \<^verbatim>\<open>ValueError\<close>.\<close>

definition py_int :: "string \<Rightarrow> error + int" where
  "py_int s =
     (case strip s of
        [] \<Rightarrow> Inl ValueError
      | c # cs \<Rightarrow>
          if c = CHR ''-'' then
            (case int_literal cs of Inl e \<Rightarrow> Inl e | Inr v \<Rightarrow> Inr (- int v))
          else if c = CHR ''+'' then
            (case int_literal cs of Inl e \<Rightarrow> Inl e | Inr v \<Rightarrow> Inr (int v))
          else
            (case int_literal (c # cs) of Inl e \<Rightarrow> Inl e | Inr v \<Rightarrow> Inr (int v)))"

fun dec_digits :: "nat \<Rightarrow> string" where
  "dec_digits n =
     (if n < 10 then [digit_char n] else dec_digits (n div 10) @ [digit_char (n mod 10)])"

declare dec_digits.simps [simp del]

text \<open>The decimal numeral of an integer.\<close>

definition decimal :: "int \<Rightarrow> string" where
  "decimal i = (if i < 0 then CHR ''-'' # dec_digits (nat (- i)) else dec_digits (nat i))"

text \<open>\<^verbatim>\<open>str(i)\<close> for an integer: its decimal numeral, or \<^verbatim>\<open>ValueError\<close> when the absolute
  value has more digits than the limit.\<close>

definition py_str :: "int \<Rightarrow> error + string" where
  "py_str i =
     (if int_max_str_digits < length (dec_digits (nat \<bar>i\<bar>)) then Inl ValueError
      else Inr (decimal i))"

section \<open>Fee calculator\<close>

text \<open>
  \<^verbatim>\<open>
  def calculate_protocol_fee(price: str, fee_bps: int = 250) -> str:
      price_int = int(price)
      fee = (price_int * fee_bps) // 10000
      return str(fee)

  def calculate_total_payment(price: str, fee_bps: int = 250) -> str:
      price_int = int(price)
      fee = int(CrossChainAuctionSDK.calculate_protocol_fee(price, fee_bps))
      return str(price_int + fee)
  \<close>
  Python's \<^verbatim>\<open>//\<close> on integers is floor division, which is \<open>div\<close> on \<^typ>\<open>int\<close>.
\<close>

definition default_fee_bps :: int where
  "default_fee_bps = 250"

definition calculate_protocol_fee :: "string \<Rightarrow> int \<Rightarrow> error + string" where
  "calculate_protocol_fee price fee_bps =
     (case py_int price of
        Inl e \<Rightarrow> Inl e
      | Inr price_int \<Rightarrow> py_str ((price_int * fee_bps) div 10000))"

definition calculate_total_payment :: "string \<Rightarrow> int \<Rightarrow> error + string" where
  "calculate_total_payment price fee_bps =
     (case py_int price of
        Inl e \<Rightarrow> Inl e
      | Inr price_int \<Rightarrow>
          (case calculate_protocol_fee price fee_bps of
             Inl e \<Rightarrow> Inl e
           | Inr f \<Rightarrow>
               (case py_int f of
                  Inl e \<Rightarrow> Inl e
                | Inr fee \<Rightarrow> py_str (price_int + fee))))"


section \<open>Floating point\<close>

text \<open>
  \<^verbatim>\<open>format_sui_amount\<close> and \<^verbatim>\<open>parse_sui_amount\<close> go through Python floats, which are IEEE 754
  binary64 numbers. A finite float is \<open>Finite m e\<close>, denoting \<open>m * 2 ^ e\<close>; the sign of a zero
  is not kept (no result below depends on it). Each operation used by the SDK is correctly
  rounded in CPython (integer true division, string to float, float multiplication, and the
  \<^verbatim>\<open>f\<close> format), so each is exact arithmetic followed by one rounding to the nearest float,
  ties to even, written here on fractions \<open>p / q\<close> of natural numbers.
\<close>

datatype double = Finite int int | PInf | NInf | NaN

fun bitlen :: "nat \<Rightarrow> nat" where
  "bitlen n = (if n = 0 then 0 else Suc (bitlen (n div 2)))"

declare bitlen.simps [simp del]

text \<open>\<open>p / q\<close> rounded to the nearest integer, ties to even.\<close>

definition div_rhe :: "nat \<Rightarrow> nat \<Rightarrow> nat" where
  "div_rhe p q =
     (let d = p div q; r = p mod q
      in if 2 * r < q then d else if q < 2 * r then d + 1 else if even d then d else d + 1)"

text \<open>\<open>2 ^ k \<le> p / q\<close>, and the binary exponent \<open>floor (log2 (p / q))\<close> of a positive fraction.\<close>

definition ge_pow2 :: "nat \<Rightarrow> nat \<Rightarrow> int \<Rightarrow> bool" where
  "ge_pow2 p q k = (if 0 \<le> k then q * 2 ^ nat k \<le> p else q \<le> p * 2 ^ nat (- k))"

definition floor_log2 :: "nat \<Rightarrow> nat \<Rightarrow> int" where
  "floor_log2 p q =
     (let k = int (bitlen p) - int (bitlen q) in if ge_pow2 p q k then k else k - 1)"

text \<open>
  The float nearest to \<open>p / q\<close> (for \<open>0 < p\<close>, \<open>0 < q\<close>) as mantissa and exponent: 53 bits of
  mantissa, exponent at least \<open>-1074\<close> (subnormal numbers), \<open>None\<close> when the rounded value is
  \<open>2 ^ 1024\<close> or more.
\<close>

definition round_to_double :: "nat \<Rightarrow> nat \<Rightarrow> (nat \<times> int) option" where
  "round_to_double p q =
     (let e = max (floor_log2 p q - 52) (- 1074);
          m = (if 0 \<le> e then div_rhe p (q * 2 ^ nat e) else div_rhe (p * 2 ^ nat (- e)) q)
      in if 971 < e \<or> (e = 971 \<and> 2 ^ 53 \<le> m) then None else Some (m, e))"

text \<open>Rounding with a sign, overflow giving an infinity (string conversion, multiplication).\<close>

definition round_signed :: "bool \<Rightarrow> nat \<Rightarrow> nat \<Rightarrow> double" where
  "round_signed neg p q =
     (if p = 0 then Finite 0 0
      else case round_to_double p q of
             None \<Rightarrow> (if neg then NInf else PInf)
           | Some (m, e) \<Rightarrow> Finite (if neg then - int m else int m) e)"

text \<open>\<^verbatim>\<open>a / b\<close> on integers: the correctly rounded quotient; a quotient too large for a float
  raises \<^verbatim>\<open>OverflowError\<close>.\<close>

definition int_truediv :: "int \<Rightarrow> int \<Rightarrow> error + double" where
  "int_truediv a b =
     (if b = 0 then Inl ZeroDivisionError
      else if a = 0 then Inr (Finite 0 0)
      else case round_to_double (nat \<bar>a\<bar>) (nat \<bar>b\<bar>) of
             None \<Rightarrow> Inl OverflowError
           | Some (m, e) \<Rightarrow> Inr (Finite (if (a < 0) \<noteq> (b < 0) then - int m else int m) e))"

text \<open>The conversion of an integer operand of a float operation.\<close>

definition float_of_int :: "int \<Rightarrow> error + double" where
  "float_of_int i =
     (if i = 0 then Inr (Finite 0 0)
      else case round_to_double (nat \<bar>i\<bar>) 1 of
             None \<Rightarrow> Inl OverflowError
           | Some (m, e) \<Rightarrow> Inr (Finite (if i < 0 then - int m else int m) e))"

definition is_nan :: "double \<Rightarrow> bool" where
  "is_nan x = (x = NaN)"

definition is_zero :: "double \<Rightarrow> bool" where
  "is_zero x = (case x of Finite m e \<Rightarrow> m = 0 | _ \<Rightarrow> False)"

definition is_neg :: "double \<Rightarrow> bool" where
  "is_neg x = (case x of Finite m e \<Rightarrow> m < 0 | NInf \<Rightarrow> True | _ \<Rightarrow> False)"

text \<open>\<^verbatim>\<open>x * y\<close> on floats; overflow gives an infinity, no exception.\<close>

definition float_mul :: "double \<Rightarrow> double \<Rightarrow> double" where
  "float_mul x y =
     (case (x, y) of
        (Finite m1 e1, Finite m2 e2) \<Rightarrow>
          (let neg = ((m1 < 0) \<noteq> (m2 < 0)); M = nat \<bar>m1 * m2\<bar>; E = e1 + e2
           in if 0 \<le> E then round_signed neg (M * 2 ^ nat E) 1
              else round_signed neg M (2 ^ nat (- E)))
      | _ \<Rightarrow>
          if is_nan x \<or> is_nan y \<or> is_zero x \<or> is_zero y then NaN
          else if is_neg x \<noteq> is_neg y then NInf else PInf)"

text \<open>\<^verbatim>\<open>int(x)\<close> on a float truncates toward zero.\<close>

definition py_int_of_float :: "double \<Rightarrow> error + int" where
  "py_int_of_float x =
     (case x of
        Finite m e \<Rightarrow>
          Inr (if 0 \<le> e then m * 2 ^ nat e
               else if 0 \<le> m then m div 2 ^ nat (- e)
               else - ((- m) div 2 ^ nat (- e)))
      | PInf \<Rightarrow> Inl OverflowError
      | NInf \<Rightarrow> Inl OverflowError
      | NaN \<Rightarrow> Inl ValueError)"

text \<open>The format \<^verbatim>\<open>f"{x:.9f}"\<close>: the exact value of the float rounded to nine decimals.\<close>

definition zfill9 :: "nat \<Rightarrow> string" where
  "zfill9 n = replicate (9 - length (dec_digits n)) CHR ''0'' @ dec_digits n"

definition format_f9 :: "double \<Rightarrow> string" where
  "format_f9 x =
     (case x of
        Finite m e \<Rightarrow>
          (let a = nat \<bar>m\<bar>;
               scaled = (if 0 \<le> e then a * 2 ^ nat e * 10 ^ 9
                         else div_rhe (a * 10 ^ 9) (2 ^ nat (- e)))
           in (if m < 0 then ''-'' else []) @ dec_digits (scaled div 10 ^ 9) @ ''.''
              @ zfill9 (scaled mod 10 ^ 9))
      | PInf \<Rightarrow> ''inf''
      | NInf \<Rightarrow> ''-inf''
      | NaN \<Rightarrow> ''nan'')"

text \<open>\<^verbatim>\<open>s.rstrip(c)\<close> for a single character \<open>c\<close>.\<close>

definition rstrip :: "char \<Rightarrow> string \<Rightarrow> string" where
  "rstrip c s = rev (dropWhile (\<lambda>x. x = c) (rev s))"

text \<open>
  \<^verbatim>\<open>float(s)\<close> on a string: surrounding whitespace dropped, an optional sign, then
  \<^verbatim>\<open>inf\<close>, \<^verbatim>\<open>infinity\<close> or \<^verbatim>\<open>nan\<close> in any case, or a decimal literal with an optional
  fraction and exponent; anything else raises \<^verbatim>\<open>ValueError\<close>. There is no limit on the
  number of digits here.
\<close>

definition to_lower :: "char \<Rightarrow> char" where
  "to_lower c =
     (if 65 \<le> (of_char c :: nat) \<and> (of_char c :: nat) \<le> 90
      then char_of (of_char c + 32 :: nat) else c)"

definition split_at :: "(char \<Rightarrow> bool) \<Rightarrow> string \<Rightarrow> string \<times> string option" where
  "split_at P s =
     (case dropWhile (\<lambda>c. \<not> P c) s of
        [] \<Rightarrow> (s, None)
      | c # r \<Rightarrow> (takeWhile (\<lambda>c. \<not> P c) s, Some r))"

definition parse_exponent :: "string \<Rightarrow> int option" where
  "parse_exponent s =
     (case s of
        [] \<Rightarrow> None
      | c # cs \<Rightarrow>
          if c = CHR ''-'' then (if valid_digits cs then Some (- int (digits_val cs)) else None)
          else if c = CHR ''+'' then (if valid_digits cs then Some (int (digits_val cs)) else None)
          else if valid_digits s then Some (int (digits_val s))
          else None)"

text \<open>The digits of a mantissa as a number, and how many of them follow the point.\<close>

definition parse_mantissa :: "string \<Rightarrow> (nat \<times> nat) option" where
  "parse_mantissa s =
     (case split_at (\<lambda>c. c = CHR ''.'') s of
        (ip, None) \<Rightarrow> if valid_digits ip then Some (digits_val ip, 0) else None
      | (ip, Some fp) \<Rightarrow>
          if (ip = [] \<or> valid_digits ip) \<and> (fp = [] \<or> valid_digits fp) \<and> \<not> (ip = [] \<and> fp = [])
          then Some (digits_val ip * 10 ^ ndigits fp + digits_val fp, ndigits fp)
          else None)"

text \<open>A decimal literal as \<open>(D, x)\<close>, denoting \<open>D * 10 ^ x\<close>.\<close>

definition parse_decimal :: "string \<Rightarrow> (nat \<times> int) option" where
  "parse_decimal s =
     (case split_at (\<lambda>c. c = CHR ''e'' \<or> c = CHR ''E'') s of
        (ms, None) \<Rightarrow>
          (case parse_mantissa ms of None \<Rightarrow> None | Some (D, f) \<Rightarrow> Some (D, - int f))
      | (ms, Some es) \<Rightarrow>
          (case parse_mantissa ms of
             None \<Rightarrow> None
           | Some (D, f) \<Rightarrow>
               (case parse_exponent es of None \<Rightarrow> None | Some x \<Rightarrow> Some (D, x - int f))))"

definition float_of_decimal :: "bool \<Rightarrow> nat \<Rightarrow> int \<Rightarrow> double" where
  "float_of_decimal neg D x =
     (if 0 \<le> x then round_signed neg (D * 10 ^ nat x) 1
      else round_signed neg D (10 ^ nat (- x)))"

definition py_float :: "string \<Rightarrow> error + double" where
  "py_float s =
     (let t = strip s;
          neg = (t \<noteq> [] \<and> hd t = CHR ''-'');
          body = (if t \<noteq> [] \<and> (hd t = CHR ''-'' \<or> hd t = CHR ''+'') then tl t else t);
          low = map to_lower body
      in if low = ''inf'' \<or> low = ''infinity'' then Inr (if neg then NInf else PInf)
         else if low = ''nan'' then Inr NaN
         else case parse_decimal body of
                None \<Rightarrow> Inl ValueError
              | Some (D, x) \<Rightarrow> Inr (float_of_decimal neg D x))"

section \<open>Amount utilities\<close>

text \<open>
  \<^verbatim>\<open>
  def format_sui_amount(amount: str) -> str:
      amount_int = int(amount)
      sui = amount_int / 1_000_000_000
      return f"{sui:.9f}".rstrip('0').rstrip('.') + " SUI"

  def parse_sui_amount(amount: str) -> str:
      sui = float(amount)
      return str(int(sui * 1_000_000_000))
  \<close>
\<close>

definition format_sui_amount :: "string \<Rightarrow> error + string" where
  "format_sui_amount amount =
     (case py_int amount of
        Inl e \<Rightarrow> Inl e
      | Inr amount_int \<Rightarrow>
          (case int_truediv amount_int 1000000000 of
             Inl e \<Rightarrow> Inl e
           | Inr sui \<Rightarrow>
               Inr (rstrip CHR ''.'' (rstrip CHR ''0'' (format_f9 sui)) @ '' SUI'')))"

definition parse_sui_amount :: "string \<Rightarrow> error + string" where
  "parse_sui_amount amount =
     (case py_float amount of
        Inl e \<Rightarrow> Inl e
      | Inr sui \<Rightarrow>
          (case float_of_int 1000000000 of
             Inl e \<Rightarrow> Inl e
           | Inr b \<Rightarrow>
               (case py_int_of_float (float_mul sui b) of
                  Inl e \<Rightarrow> Inl e
                | Inr i \<Rightarrow> py_str i)))"

section \<open>Time utilities\<close>

text \<open>
  \<^verbatim>\<open>
  def generate_timelock(offset_ms: int) -> int:
      return int(time.time() * 1000) + offset_ms

  def is_timelock_expired(timelock: int) -> bool:
      return int(time.time() * 1000) > timelock
  \<close>
  The reading of the clock, \<^verbatim>\<open>int(time.time() * 1000)\<close>, is the explicit argument \<open>now_ms\<close>.
\<close>

definition generate_timelock :: "int \<Rightarrow> int \<Rightarrow> int" where
  "generate_timelock now_ms offset_ms = now_ms + offset_ms"

definition is_timelock_expired :: "int \<Rightarrow> int \<Rightarrow> bool" where
  "is_timelock_expired now_ms timelock = (now_ms > timelock)"

section \<open>Secret commitment\<close>

text \<open>
  \<^verbatim>\<open>
  def generate_secret() -> Tuple[str, List[int]]:
      secret = secrets.token_hex(32)
      hash_bytes = hashlib.sha3_256(secret.encode()).digest()
      hash_list = list(hash_bytes)
      return secret, hash_list
  \<close>
  The system's random source is an explicit stream of bytes \<open>entropy\<close>, of which
  \<^verbatim>\<open>secrets.token_hex(n)\<close> draws \<open>n\<close> and writes each as two lower-case hexadecimal digits. The
  hash function of \<^verbatim>\<open>hashlib\<close> is the parameter \<open>sha3_256\<close>.
\<close>

type_synonym byte = "8 word"

definition hex_digit :: "nat \<Rightarrow> char" where
  "hex_digit d = ''0123456789abcdef'' ! d"

definition hex_of_byte :: "byte \<Rightarrow> string" where
  "hex_of_byte b = [hex_digit (unat b div 16), hex_digit (unat b mod 16)]"

definition token_bytes :: "(nat \<Rightarrow> byte) \<Rightarrow> nat \<Rightarrow> byte list" where
  "token_bytes entropy n = map entropy [0..<n]"

definition token_hex :: "(nat \<Rightarrow> byte) \<Rightarrow> nat \<Rightarrow> string" where
  "token_hex entropy n = concat (map hex_of_byte (token_bytes entropy n))"

text \<open>\<^verbatim>\<open>s.encode()\<close>: the UTF-8 bytes of a string, one byte for each ASCII character.\<close>

definition encode :: "string \<Rightarrow> byte list" where
  "encode s = map (\<lambda>c. of_char c) s"

definition generate_secret ::
  "(byte list \<Rightarrow> byte list) \<Rightarrow> (nat \<Rightarrow> byte) \<Rightarrow> string \<times> int list" where
  "generate_secret sha3_256 entropy =
     (let secret = token_hex entropy 32;
          hash_bytes = sha3_256 (encode secret);
          hash_list = map uint hash_bytes
      in (secret, hash_list))"

text \<open>Reading a hexadecimal string back into bytes (\<^verbatim>\<open>bytes.fromhex\<close>), to state what a
  secret stands for.\<close>

definition hex_val :: "char \<Rightarrow> nat" where
  "hex_val c = (if is_digit c then of_char c - 48 else of_char c - 87)"

fun bytes_fromhex :: "string \<Rightarrow> byte list" where
  "bytes_fromhex (a # b # cs) = word_of_nat (16 * hex_val a + hex_val b) # bytes_fromhex cs"
| "bytes_fromhex _ = []"

section \<open>Transactions\<close>


datatype arg = Str string | IntList "int list"

record move_call =
  target :: string
  arguments :: "arg list"



record price_update =
  timestamp :: int
  price :: string
  formatted_price :: string

datatype action =
    Execute move_call int
  | CallIsAuctionActive int
  | CallGetCurrentPrice int
  | Yield price_update
  | Sleep int
  | PrintError error









section \<open>View queries and the price monitor\<close>

text \<open>
  \<^verbatim>\<open>
  def get_current_price(self, auction_id: int) -> str:
      # This would require a view function call
      # Implementation depends on pysui's view function support
      # For now, return a placeholder
      return "0"

  def is_auction_active(self, auction_id: int) -> bool:
      # ... For now, return a placeholder
      return True

  def get_time_remaining(self, auction_id: int) -> int:
      # ... For now, return a placeholder
      return 0
  \<close>
\<close>

definition get_current_price :: "int \<Rightarrow> string" where
  "get_current_price auction_id = ''0''"

definition is_auction_active :: "int \<Rightarrow> bool" where
  "is_auction_active auction_id = True"

definition get_time_remaining :: "int \<Rightarrow> int" where
  "get_time_remaining auction_id = 0"

text \<open>
  The price curve in the words of the specification, to compare \<open>get_current_price\<close> with:
  \<open>start_price\<close> up to the start, \<open>end_price\<close> from the end on, and in between
  \<open>start_price - (start_price - end_price) * (now - start_time) / duration\<close> with the quotient
  truncated toward zero.
\<close>

definition trunc_div :: "int \<Rightarrow> int \<Rightarrow> int" where
  "trunc_div a b = sgn a * sgn b * (\<bar>a\<bar> div \<bar>b\<bar>)"

definition spec_current_price :: "int \<Rightarrow> int \<Rightarrow> int \<Rightarrow> int \<Rightarrow> int \<Rightarrow> int" where
  "spec_current_price start_price end_price start_time duration now =
     (if now \<le> start_time then start_price
      else if start_time + duration \<le> now then end_price
      else start_price - trunc_div ((start_price - end_price) * (now - start_time)) duration)"

text \<open>
  \<^verbatim>\<open>
  async def monitor_auction_price(self, auction_id, interval_seconds=30):
      while True:
          try:
              is_active = self.sdk.is_auction_active(auction_id)
              if not is_active:
                  break
              price = self.sdk.get_current_price(auction_id)
              yield {"timestamp": int(time.time()),
                     "price": price,
                     "formatted_price": CrossChainAuctionSDK.format_sui_amount(price)}
              await asyncio.sleep(interval_seconds)
          except Exception as e:
              print(f"Error monitoring auction price: {e}")
              break
  \<close>
  The monitor calls the methods of whatever SDK object it was built with. What those calls
  and the clock return in the \<open>i\<close>-th iteration of the loop is given by a record of
  observations; \<open>placeholder_sdk\<close> is the one of the class \<^verbatim>\<open>CrossChainAuctionSDK\<close> itself.
  The loop may run forever, so it is run for at most \<open>fuel\<close> iterations: the result is the
  actions performed so far, with \<open>Finished\<close> when the generator has returned and \<open>Suspended\<close>
  when it would go on.
\<close>

record observations =
  sdk_is_auction_active :: "nat \<Rightarrow> int \<Rightarrow> error + bool"
  sdk_get_current_price :: "nat \<Rightarrow> int \<Rightarrow> error + string"
  time_s :: "nat \<Rightarrow> int"

definition placeholder_sdk :: "(nat \<Rightarrow> int) \<Rightarrow> observations" where
  "placeholder_sdk clock =
     \<lparr>sdk_is_auction_active = (\<lambda>i auction_id. Inr (is_auction_active auction_id)),
      sdk_get_current_price = (\<lambda>i auction_id. Inr (get_current_price auction_id)),
      time_s = clock\<rparr>"

datatype status = Finished | Suspended

fun monitor_auction_price ::
  "observations \<Rightarrow> int \<Rightarrow> int \<Rightarrow> nat \<Rightarrow> nat \<Rightarrow> action list \<times> status" where
  "monitor_auction_price obs auction_id interval_seconds 0 i = ([], Suspended)"
| "monitor_auction_price obs auction_id interval_seconds (Suc fuel) i =
     (case sdk_is_auction_active obs i auction_id of
        Inl e \<Rightarrow> ([CallIsAuctionActive auction_id, PrintError e], Finished)
      | Inr is_active \<Rightarrow>
          if \<not> is_active then ([CallIsAuctionActive auction_id], Finished)
          else
            (case sdk_get_current_price obs i auction_id of
               Inl e \<Rightarrow>
                 ([CallIsAuctionActive auction_id, CallGetCurrentPrice auction_id, PrintError e],
                  Finished)
             | Inr current \<Rightarrow>
                 (case format_sui_amount current of
                    Inl e \<Rightarrow>
                      ([CallIsAuctionActive auction_id, CallGetCurrentPrice auction_id,
                        PrintError e], Finished)
                  | Inr formatted \<Rightarrow>
                      (let (rest, st) =
                             monitor_auction_price obs auction_id interval_seconds fuel (Suc i)
                       in ([CallIsAuctionActive auction_id, CallGetCurrentPrice auction_id,
                            Yield \<lparr>timestamp = time_s obs i, price = current,
                                   formatted_price = formatted\<rparr>,
                            Sleep interval_seconds] @ rest, st)))))"

fun is_execute :: "action \<Rightarrow> bool" where
  "is_execute (Execute txn gas) = True"
| "is_execute _ = False"

fun yields :: "action list \<Rightarrow> price_update list" where
  "yields [] = []"
| "yields (Yield u # as) = u # yields as"
| "yields (a # as) = yields as"

section \<open>Escrow state machine\<close>

text \<open>
  The transitions of an escrow are carried out by the on-chain module
  \<^verbatim>\<open>cross_chain_auction\<close>, to which the SDK only submits calls; the SDK itself holds the
  dataclass \<^verbatim>\<open>Escrow\<close> with the flags \<^verbatim>\<open>is_revealed\<close>, \<^verbatim>\<open>is_released\<close> and \<^verbatim>\<open>is_refunded\<close>
  and no transition. The definitions of this section follow the specification.
\<close>

text \<open>Modelled from the spec: the states of an escrow in the on-chain module (absent from
  the sources), \<open>Locked \<rightarrow> Revealed \<rightarrow> Released\<close> or \<open>Locked \<rightarrow> Refunded\<close>.\<close>

datatype escrow_state = Locked | Revealed | Released | Refunded

text \<open>Modelled from the spec: the failures of the transitions of the on-chain module
  (absent from the sources). \<open>SecretMismatch\<close> and \<open>TimelockExpired\<close> stand for the two
  failures of a release that the specification leaves unnamed.\<close>

datatype escrow_error =
  InvalidState | AlreadyReleased | TimelockNotExpired | SecretMismatch | TimelockExpired

text \<open>Modelled from the spec: the escrow entity of the on-chain module (absent from the
  sources), \<open>{id, commitment, asset_amount, maker, timelock, metadata, state}\<close>, together with
  the revealed secret that a release records.\<close>

record escrow =
  escrow_id :: string
  commitment :: "int list"
  asset_amount :: int
  maker :: string
  timelock :: int
  metadata :: string
  state :: escrow_state
  revealed_secret :: "string option"

text \<open>Modelled from the spec: \<open>verify (secret, commitment)\<close> of the on-chain module (absent
  from the sources) recomputes the hash of the secret and compares for exact equality.\<close>

definition verify :: "(byte list \<Rightarrow> byte list) \<Rightarrow> string \<Rightarrow> int list \<Rightarrow> bool" where
  "verify sha3_256 secret c = (map uint (sha3_256 (encode secret)) = c)"

text \<open>Modelled from the spec: \<open>release\<close> of the on-chain module (absent from the sources).
  It requires the state \<open>Locked\<close>, a secret that verifies against the commitment, and
  \<open>now < timelock\<close>; it then transfers the asset amount to the beneficiary, sets the state
  \<open>Released\<close> and records the secret. A release after a successful one fails with
  \<open>AlreadyReleased\<close>, in any other state than \<open>Locked\<close> with \<open>InvalidState\<close>. The
  specification names no failure for a wrong secret or a passed timelock; they are
  \<open>SecretMismatch\<close> and \<open>TimelockExpired\<close> here. A transfer is the pair of the recipient and
  the amount.\<close>

definition release ::
  "(byte list \<Rightarrow> byte list) \<Rightarrow> escrow \<Rightarrow> string \<Rightarrow> string \<Rightarrow> int
     \<Rightarrow> escrow_error + escrow \<times> (string \<times> int)" where
  "release sha3_256 e secret beneficiary now =
     (if state e = Released then Inl AlreadyReleased
      else if state e \<noteq> Locked then Inl InvalidState
      else if \<not> verify sha3_256 secret (commitment e) then Inl SecretMismatch
      else if \<not> now < timelock e then Inl TimelockExpired
      else Inr (e\<lparr>state := Released, revealed_secret := Some secret\<rparr>,
                (beneficiary, asset_amount e)))"

text \<open>Modelled from the spec: \<open>refund\<close> of the on-chain module (absent from the sources).
  It requires the state \<open>Locked\<close> and \<open>now \<ge> timelock\<close>; it then returns the asset amount to
  the maker and sets the state \<open>Refunded\<close>. Before expiry it fails with
  \<open>TimelockNotExpired\<close>, in any other state than \<open>Locked\<close> with \<open>InvalidState\<close>.\<close>

definition refund :: "escrow \<Rightarrow> int \<Rightarrow> escrow_error + escrow \<times> (string \<times> int)" where
  "refund e now =
     (if state e \<noteq> Locked then Inl InvalidState
      else if \<not> now \<ge> timelock e then Inl TimelockNotExpired
      else Inr (e\<lparr>state := Refunded\<rparr>, (maker e, asset_amount e)))"

text \<open>Modelled from the spec: a sequence of release and refund attempts against one escrow,
  each a pure function of the current state and an explicit time; a failed attempt leaves
  the escrow as it was. The result lists the outcome of every attempt.\<close>

datatype escrow_op = Release string string int | Refund int

text \<open>Modelled from the spec: one attempt, dispatched to \<open>release\<close> or \<open>refund\<close> of the
  on-chain module (absent from the sources).\<close>

fun apply_op ::
  "(byte list \<Rightarrow> byte list) \<Rightarrow> escrow \<Rightarrow> escrow_op
     \<Rightarrow> escrow_error + escrow \<times> (string \<times> int)" where
  "apply_op sha3_256 e (Release secret beneficiary now) = release sha3_256 e secret beneficiary now"
| "apply_op sha3_256 e (Refund now) = refund e now"

text \<open>Modelled from the spec: the outcomes of a sequence of attempts on the on-chain
  escrow (absent from the sources), each attempt applied to the state the successful ones
  before it produced.\<close>

fun run_ops ::
  "(byte list \<Rightarrow> byte list) \<Rightarrow> escrow \<Rightarrow> escrow_op list
     \<Rightarrow> (escrow_error + escrow \<times> (string \<times> int)) list" where
  "run_ops sha3_256 e [] = []"
| "run_ops sha3_256 e (op # ops) =
     (case apply_op sha3_256 e op of
        Inl err \<Rightarrow> Inl err # run_ops sha3_256 e ops
      | Inr (e', t) \<Rightarrow> Inr (e', t) # run_ops sha3_256 e' ops)"

text \<open>Modelled from the spec: the states that the successful attempts of a run reached.\<close>

fun reached :: "(escrow_error + escrow \<times> (string \<times> int)) list \<Rightarrow> escrow_state list" where
  "reached [] = []"
| "reached (Inl err # rs) = reached rs"
| "reached (Inr (e, t) # rs) = state e # reached rs"

text \<open>Modelled from the spec: the escrow after a run of attempts.\<close>

fun final_escrow :: "(byte list \<Rightarrow> byte list) \<Rightarrow> escrow \<Rightarrow> escrow_op list \<Rightarrow> escrow" where
  "final_escrow sha3_256 e [] = e"
| "final_escrow sha3_256 e (op # ops) =
     (case apply_op sha3_256 e op of
        Inl err \<Rightarrow> final_escrow sha3_256 e ops
      | Inr (e', t) \<Rightarrow> final_escrow sha3_256 e' ops)"

section \<open>The display string of the specification\<close>

text \<open>
  The display string in the words of the specification, to compare \<open>format_sui_amount\<close>
  with: the exact decimal expansion of \<open>n / 10 ^ 9\<close>, that is the integer part, and, unless
  the fraction is zero, the point and the nine digits of the fraction without their trailing
  zeros; then the asset symbol.
\<close>

definition exact_display :: "nat \<Rightarrow> string" where
  "exact_display n =
     dec_digits (n div 10 ^ 9)
     @ (if n mod 10 ^ 9 = 0 then [] else CHR ''.'' # rstrip CHR ''0'' (zfill9 (n mod 10 ^ 9)))
     @ '' SUI''"

section \<open>Properties of the string conversions\<close>

lemma digit_char_lt10:
  assumes "d < 10"
  shows "is_digit (digit_char d)" and "digit_val (digit_char d) = d"
    and "digit_char d \<noteq> CHR ''_''" and "\<not> is_space (digit_char d)"
proof -
  from assms have "d \<in> {0,1,2,3,4,5,6,7,8,9}" by auto
  then show "is_digit (digit_char d)" and "digit_val (digit_char d) = d"
    and "digit_char d \<noteq> CHR ''_''" and "\<not> is_space (digit_char d)"
    by (auto simp: is_digit_def digit_char_def digit_val_def is_space_def)
qed

lemma is_digit_facts:
  assumes "is_digit c"
  shows "c \<noteq> CHR ''_''" and "\<not> is_space c" and "c \<noteq> CHR ''-''" and "c \<noteq> CHR ''+''"
  using assms by (auto simp: is_digit_def is_space_def)

lemma dec_digits_digits: "\<forall>c\<in>set (dec_digits n). is_digit c"
proof (induction n rule: dec_digits.induct)
  case (1 n)
  show ?case
  proof (cases "n < 10")
    case True
    then show ?thesis by (subst dec_digits.simps) (simp add: digit_char_lt10)
  next
    case False
    with 1 show ?thesis by (subst dec_digits.simps) (simp add: digit_char_lt10)
  qed
qed

lemma dec_digits_nonempty: "dec_digits n \<noteq> []"
  by (subst dec_digits.simps) simp

lemma valid_digits_all_digits:
  "s \<noteq> [] \<Longrightarrow> \<forall>c\<in>set s. is_digit c \<Longrightarrow> valid_digits s"
proof (induction s rule: valid_digits.induct)
  case 1
  then show ?case by simp
next
  case (2 c)
  then show ?case by simp
next
  case (3 c d cs)
  then show ?case by (auto dest: is_digit_facts(1))
qed

lemma digits_val_snoc:
  "c \<noteq> CHR ''_'' \<Longrightarrow> digits_val (s @ [c]) = 10 * digits_val s + digit_val c"
  by (simp add: digits_val_def)

lemma digits_val_dec_digits: "digits_val (dec_digits n) = n"
proof (induction n rule: dec_digits.induct)
  case (1 n)
  show ?case
  proof (cases "n < 10")
    case True
    then show ?thesis
      by (subst dec_digits.simps) (simp add: digits_val_def digit_char_lt10)
  next
    case False
    with 1 have "digits_val (dec_digits (n div 10)) = n div 10" by simp
    with False show ?thesis
      by (subst dec_digits.simps) (simp add: digits_val_snoc digit_char_lt10)
  qed
qed

lemma strip_id:
  assumes "s \<noteq> []" and "\<not> is_space (hd s)" and "\<not> is_space (last s)"
  shows "strip s = s"
proof -
  from assms have a: "dropWhile is_space s = s" by (cases s) auto
  from assms have "dropWhile is_space (rev s) = rev s"
    by (cases "rev s") (auto simp: last_rev[symmetric] hd_rev)
  with a show ?thesis by (simp add: strip_def)
qed

lemma strip_digits:
  assumes "s \<noteq> []" and "\<forall>c\<in>set s. is_digit c"
  shows "strip s = s"
  using assms by (intro strip_id) (auto dest: is_digit_facts(2))

lemma ndigits_digits: "\<forall>c\<in>set s. is_digit c \<Longrightarrow> ndigits s = length s"
proof -
  assume "\<forall>c\<in>set s. is_digit c"
  then have "\<forall>c\<in>set s. c \<noteq> CHR ''_''" by (auto dest: is_digit_facts(1))
  then have "filter (\<lambda>c. c \<noteq> CHR ''_'') s = s" by (simp add: filter_id_conv)
  then show ?thesis by (simp add: ndigits_def)
qed

lemma int_literal_digits:
  assumes "s \<noteq> []" and "\<forall>c\<in>set s. is_digit c"
  shows "int_literal s =
           (if int_max_str_digits < length s then Inl ValueError else Inr (digits_val s))"
  using valid_digits_all_digits[OF assms] ndigits_digits[OF assms(2)]
  by (simp add: int_literal_def)

lemma py_int_all_digits:
  assumes "s \<noteq> []" and "\<forall>c\<in>set s. is_digit c"
  shows "py_int s =
           (if int_max_str_digits < length s then Inl ValueError else Inr (int (digits_val s)))"
proof -
  from assms obtain c cs where s: "s = c # cs" by (cases s) auto
  with assms have "is_digit c" by simp
  then have "c \<noteq> CHR ''-''" "c \<noteq> CHR ''+''" by (auto dest: is_digit_facts)
  then show ?thesis
    using strip_digits[OF assms] int_literal_digits[OF assms] s by (simp add: py_int_def)
qed

lemma py_int_digits:
  assumes "s \<noteq> []" and "\<forall>c\<in>set s. is_digit c" and "length s \<le> int_max_str_digits"
  shows "py_int s = Inr (int (digits_val s))"
  using py_int_all_digits[OF assms(1,2)] assms(3) by simp

lemma py_int_too_long:
  assumes "\<forall>c\<in>set s. is_digit c" and "int_max_str_digits < length s"
  shows "py_int s = Inl ValueError"
proof -
  from assms(2) have "s \<noteq> []" by auto
  from py_int_all_digits[OF this assms(1)] assms(2) show ?thesis by simp
qed

lemma length_dec_digits: "n < 10 ^ k \<Longrightarrow> 0 < k \<Longrightarrow> length (dec_digits n) \<le> k"
proof (induction n arbitrary: k rule: dec_digits.induct)
  case (1 n)
  show ?case
  proof (cases "n < 10")
    case True
    with 1(3) show ?thesis by (subst dec_digits.simps) simp
  next
    case False
    from 1(3) obtain j where k: "k = Suc j" by (cases k) auto
    with 1(2) have "n div 10 < 10 ^ j" by (simp add: div_less_iff_less_mult mult.commute)
    moreover have "0 < j"
    proof (rule ccontr)
      assume "\<not> 0 < j"
      with k 1(2) False show False by simp
    qed
    ultimately have "length (dec_digits (n div 10)) \<le> j" using 1(1) False by simp
    with False k show ?thesis by (subst dec_digits.simps) simp
  qed
qed

lemma py_str_small: "\<bar>i\<bar> < 10 ^ int_max_str_digits \<Longrightarrow> py_str i = Inr (decimal i)"
proof -
  assume "\<bar>i\<bar> < 10 ^ int_max_str_digits"
  then have "nat \<bar>i\<bar> < 10 ^ int_max_str_digits"
    by (simp add: nat_less_iff)
  then have "length (dec_digits (nat \<bar>i\<bar>)) \<le> int_max_str_digits"
    by (rule length_dec_digits) (simp add: int_max_str_digits_def)
  then show ?thesis by (simp add: py_str_def)
qed

lemma dec_digits_upper: "n < 10 ^ length (dec_digits n)"
proof (induction n rule: dec_digits.induct)
  case (1 n)
  show ?case
  proof (cases "n < 10")
    case True
    then show ?thesis by (subst dec_digits.simps) simp
  next
    case False
    with 1 have "n div 10 < 10 ^ length (dec_digits (n div 10))" by simp
    then have "n < 10 * 10 ^ length (dec_digits (n div 10))" by linarith
    with False show ?thesis by (subst dec_digits.simps) simp
  qed
qed

lemma py_str_large: "10 ^ int_max_str_digits \<le> \<bar>i\<bar> \<Longrightarrow> py_str i = Inl ValueError"
proof -
  assume a: "10 ^ int_max_str_digits \<le> \<bar>i\<bar>"
  have "\<not> length (dec_digits (nat \<bar>i\<bar>)) \<le> int_max_str_digits"
  proof
    assume "length (dec_digits (nat \<bar>i\<bar>)) \<le> int_max_str_digits"
    then have "(10::nat) ^ length (dec_digits (nat \<bar>i\<bar>)) \<le> 10 ^ int_max_str_digits"
      by (intro power_increasing) simp_all
    with dec_digits_upper[of "nat \<bar>i\<bar>"] have "nat \<bar>i\<bar> < 10 ^ int_max_str_digits"
      by (rule less_le_trans)
    then have "\<bar>i\<bar> < 10 ^ int_max_str_digits" by (simp add: nat_less_iff)
    with a show False by simp
  qed
  then show ?thesis by (simp add: py_str_def)
qed

lemma py_str_error: "py_str i = Inl e \<Longrightarrow> e = ValueError"
  by (auto simp: py_str_def split: if_splits)

lemma py_int_decimal:
  assumes "length (dec_digits (nat \<bar>i\<bar>)) \<le> int_max_str_digits"
  shows "py_int (decimal i) = Inr i"
proof (cases "i < 0")
  case False
  then have "nat \<bar>i\<bar> = nat i" by simp
  with assms have "length (dec_digits (nat i)) \<le> int_max_str_digits" by simp
  from py_int_digits[OF dec_digits_nonempty dec_digits_digits this] False show ?thesis
    by (simp add: decimal_def digits_val_dec_digits)
next
  case True
  let ?d = "dec_digits (nat (- i))"
  from True have "nat \<bar>i\<bar> = nat (- i)" by simp
  with assms have len: "length ?d \<le> int_max_str_digits" by simp
  have "\<not> is_space (last ?d)"
    using dec_digits_digits[of "nat (- i)"] dec_digits_nonempty[of "nat (- i)"]
    by (meson is_digit_facts(2) last_in_set)
  then have "strip (CHR ''-'' # ?d) = CHR ''-'' # ?d"
    using dec_digits_nonempty[of "nat (- i)"] by (intro strip_id) (auto simp: is_space_def)
  moreover have "int_literal ?d = Inr (nat (- i))"
    using int_literal_digits[OF dec_digits_nonempty dec_digits_digits, of "nat (- i)"] len
    by (simp add: digits_val_dec_digits)
  ultimately show ?thesis using True
    by (simp add: py_int_def decimal_def)
qed

lemma py_int_py_str: "py_str i = Inr s \<Longrightarrow> py_int s = Inr i"
  using py_int_decimal[of i] by (auto simp: py_str_def split: if_splits)

lemma int_literal_error: "int_literal s = Inl e \<Longrightarrow> e = ValueError"
  by (auto simp: int_literal_def split: if_splits)

lemma py_int_error: "py_int s = Inl e \<Longrightarrow> e = ValueError"
  by (auto simp: py_int_def split: list.splits if_splits sum.splits dest: int_literal_error)

text \<open>Evaluation of the conversions on numerals and literal strings.\<close>

lemmas eval_py_int =
  py_int_def int_literal_def ndigits_def int_max_str_digits_def strip_def is_space_def
  is_digit_def digits_val_def digit_val_def

lemmas eval_py_str =
  py_str_def decimal_def int_max_str_digits_def dec_digits.simps[of "numeral k" for k]
  dec_digits.simps[of 0] dec_digits.simps[of "Suc 0"] digit_char_def

section \<open>Properties of the fee calculator\<close>

lemma floor_div_10000: "\<lfloor>real_of_int k / 10000\<rfloor> = k div 10000"
  using floor_divide_of_int_eq[of k 10000, where ?'a = real] by simp

lemma below_limit: "\<bar>x\<bar> < 10 ^ 30 \<Longrightarrow> \<bar>x::int\<bar> < 10 ^ int_max_str_digits"
proof -
  assume "\<bar>x\<bar> < 10 ^ 30"
  moreover have "(10::int) ^ 30 \<le> 10 ^ int_max_str_digits"
    unfolding int_max_str_digits_def by (rule power_increasing) simp_all
  ultimately show ?thesis by (rule less_le_trans)
qed

lemma fee_of_price:
  assumes "py_int s = Inr q"
  shows "calculate_protocol_fee s f = py_str ((q * f) div 10000)"
  using assms by (simp add: calculate_protocol_fee_def)

lemma total_of_price:
  assumes "py_int s = Inr q" and "py_str ((q * f) div 10000) = Inr fs"
  shows "calculate_total_payment s f = py_str (q + (q * f) div 10000)"
  using assms py_int_py_str[OF assms(2)]
  by (simp add: calculate_total_payment_def calculate_protocol_fee_def)

text \<open>
  Claim C2, as the code has it. For a price string that \<^verbatim>\<open>int\<close> reads as the integer \<open>p\<close> (a
  decimal string of at most 4300 digits is one, see \<open>py_int_digits\<close>) and every \<open>fee_bps\<close>
  for which the fee and the total payment stay below \<open>10 ^ 4300\<close>, the protocol fee is the
  decimal numeral of \<open>floor (p * fee_bps / 10000)\<close> and the total payment is the decimal
  numeral of \<open>p\<close> plus that fee. With the default of 250 basis points the price
  \<^verbatim>\<open>"1000000000"\<close> has the fee \<^verbatim>\<open>"25000000"\<close> and the total payment \<^verbatim>\<open>"1025000000"\<close>.
\<close>

theorem protocol_fee_and_total_payment:
  assumes "py_int price_s = Inr p"
    and "\<bar>\<lfloor>real_of_int (p * fee_bps) / 10000\<rfloor>\<bar> < 10 ^ int_max_str_digits"
    and "\<bar>p + \<lfloor>real_of_int (p * fee_bps) / 10000\<rfloor>\<bar> < 10 ^ int_max_str_digits"
  shows "calculate_protocol_fee price_s fee_bps =
           Inr (decimal \<lfloor>real_of_int (p * fee_bps) / 10000\<rfloor>)
       \<and> calculate_total_payment price_s fee_bps =
           Inr (decimal (p + \<lfloor>real_of_int (p * fee_bps) / 10000\<rfloor>))
       \<and> calculate_protocol_fee ''1000000000'' default_fee_bps = Inr ''25000000''
       \<and> calculate_total_payment ''1000000000'' default_fee_bps = Inr ''1025000000''"
proof -
  let ?fee = "(p * fee_bps) div 10000"
  from assms(2) have f: "py_str ?fee = Inr (decimal ?fee)"
    by (simp only: floor_div_10000 py_str_small)
  from assms(3) have t: "py_str (p + ?fee) = Inr (decimal (p + ?fee))"
    by (simp only: floor_div_10000 py_str_small)
  have scen: "py_int ''1000000000'' = Inr 1000000000"
    by (simp add: eval_py_int)
  have sf: "py_str ((1000000000 * 250) div 10000) = Inr ''25000000''"
    by (simp add: eval_py_str)
  have st: "py_str (1000000000 + (1000000000 * 250) div 10000) = Inr ''1025000000''"
    by (simp add: eval_py_str)
  have "calculate_protocol_fee price_s fee_bps = Inr (decimal ?fee)"
    using fee_of_price[OF assms(1), of fee_bps] f by simp
  moreover have "calculate_total_payment price_s fee_bps = Inr (decimal (p + ?fee))"
    using total_of_price[OF assms(1) f] t by simp
  moreover have "calculate_protocol_fee ''1000000000'' 250 = Inr ''25000000''"
    using fee_of_price[OF scen, of 250] sf by simp
  moreover have "calculate_total_payment ''1000000000'' 250 = Inr ''1025000000''"
    using total_of_price[OF scen sf] st by simp
  ultimately show ?thesis
    by (simp only: floor_div_10000 default_fee_bps_def simp_thms)
qed

theorem protocol_fee_and_total_payment_witness:
  "py_int ''40000'' = Inr 40000
   \<and> calculate_protocol_fee ''40000'' 30 = Inr ''120''
   \<and> calculate_total_payment ''40000'' 30 = Inr ''40120''"
proof -
  have h: "py_int ''40000'' = Inr 40000" by (simp add: eval_py_int)
  have fl: "\<lfloor>real_of_int (40000 * 30) / 10000\<rfloor> = 120" by simp
  have h2: "\<bar>\<lfloor>real_of_int (40000 * 30) / 10000\<rfloor>\<bar> < 10 ^ int_max_str_digits"
    by (subst fl, rule below_limit) simp
  have h3: "\<bar>40000 + \<lfloor>real_of_int (40000 * 30) / 10000\<rfloor>\<bar> < 10 ^ int_max_str_digits"
    by (subst fl, rule below_limit) simp
  have "decimal 120 = ''120''" by (simp add: eval_py_str)
  moreover have "decimal 40120 = ''40120''" by (simp add: eval_py_str)
  ultimately show ?thesis
    using h protocol_fee_and_total_payment[OF h h2 h3] by (simp add: fl)
qed

text \<open>
  The claim as the specification states it (for every price given as a decimal string)
  fails for a price of 4301 digits, on which \<^verbatim>\<open>int\<close> raises.
\<close>

theorem protocol_fee_long_price_counterexample:
  "calculate_protocol_fee (replicate 4301 CHR ''1'') default_fee_bps = Inl ValueError
   \<and> calculate_total_payment (replicate 4301 CHR ''1'') default_fee_bps = Inl ValueError"
proof -
  have "\<forall>c\<in>set (replicate 4301 CHR ''1''). is_digit c" by (simp add: is_digit_def)
  moreover have "int_max_str_digits < length (replicate 4301 CHR ''1'')"
    by (simp add: int_max_str_digits_def)
  ultimately have "py_int (replicate 4301 CHR ''1'') = Inl ValueError"
    by (rule py_int_too_long)
  then show ?thesis
    by (simp add: calculate_protocol_fee_def calculate_total_payment_def)
qed

text \<open>
  Claim C7, as the code has it. The fee calculation multiplies Python integers, which have no
  width: whenever the price string is an integer literal and the fee stays below
  \<open>10 ^ 4300\<close> the call returns the decimal numeral of \<open>floor (p * fee_bps / 10000)\<close>,
  however large the product, and every failure of the call is a \<^verbatim>\<open>ValueError\<close>, never an
  overflow: it is raised by \<^verbatim>\<open>int\<close> on a string that is not an integer literal of at most
  4300 digits, and by \<^verbatim>\<open>str\<close> on a fee of more than 4300 digits.
\<close>

theorem protocol_fee_unbounded:
  "(calculate_protocol_fee price_s fee_bps = Inl e \<longrightarrow> e = ValueError)
   \<and> (py_int price_s = Inr p \<and> \<bar>(p * fee_bps) div 10000\<bar> < 10 ^ int_max_str_digits \<longrightarrow>
        calculate_protocol_fee price_s fee_bps = Inr (decimal ((p * fee_bps) div 10000)))
   \<and> (py_int price_s = Inr p \<and> 10 ^ int_max_str_digits \<le> \<bar>(p * fee_bps) div 10000\<bar> \<longrightarrow>
        calculate_protocol_fee price_s fee_bps = Inl ValueError)
   \<and> (py_int price_s = Inl e' \<longrightarrow> calculate_protocol_fee price_s fee_bps = Inl ValueError)"
proof (cases "py_int price_s")
  case (Inl x)
  then have "x = ValueError" by (rule py_int_error)
  with Inl show ?thesis by (simp add: calculate_protocol_fee_def)
next
  case (Inr q)
  then have "calculate_protocol_fee price_s fee_bps = py_str ((q * fee_bps) div 10000)"
    by (rule fee_of_price)
  then show ?thesis
    using Inr py_str_error[of "(q * fee_bps) div 10000" e]
      py_str_small[of "(q * fee_bps) div 10000"] py_str_large[of "(q * fee_bps) div 10000"]
    by auto
qed

theorem protocol_fee_unbounded_witness:
  "(2::int) ^ 64 \<le> 18446744073709551616 * 10000
   \<and> calculate_protocol_fee ''18446744073709551616'' 10000 = Inr ''18446744073709551616''"
proof -
  have h: "py_int ''18446744073709551616'' = Inr 18446744073709551616"
    by (simp add: eval_py_int)
  have b: "\<bar>(18446744073709551616 * 10000) div 10000\<bar> < (10::int) ^ int_max_str_digits"
    by (rule below_limit) simp
  have "decimal ((18446744073709551616 * 10000) div 10000) = ''18446744073709551616''"
    by (simp add: eval_py_str)
  then show ?thesis
    using h b protocol_fee_unbounded[where price_s = "''18446744073709551616''"
        and fee_bps = 10000 and p = 18446744073709551616]
    by simp
qed

text \<open>
  The claim as the specification states it (a product beyond the 64-bit width of the chain's
  integers makes the fee operation fail) does not hold of the SDK: at the largest 64-bit price
  the product exceeds \<open>2 ^ 64 - 1\<close> and a fee is returned.
\<close>

theorem protocol_fee_overflow_counterexample:
  "(2::int) ^ 64 - 1 < 18446744073709551615 * 250
   \<and> calculate_protocol_fee ''18446744073709551615'' 250 = Inr ''461168601842738790''"
  by (simp add: calculate_protocol_fee_def eval_py_int eval_py_str)

section \<open>Properties of the time utilities\<close>

text \<open>
  Claim C3, as the code has it. The expiry check of the SDK compares strictly: it is true
  exactly when the clock reading is greater than the timelock, so at the timelock itself it
  is still false. The refund transition, which the SDK does not gate by this check, requires
  \<open>now \<ge> timelock\<close>: on a locked escrow it fails with \<open>TimelockNotExpired\<close> before the
  timelock and succeeds from the timelock on. With a timelock of \<open>now + 1000\<close> the check is
  false and the refund fails with \<open>TimelockNotExpired\<close> at \<open>now + 500\<close>, and the check is
  true and the refund succeeds at \<open>now + 1001\<close>.
\<close>

theorem timelock_expired_strict:
  "is_timelock_expired now_ms t = (t < now_ms)
   \<and> \<not> is_timelock_expired t t
   \<and> \<not> is_timelock_expired (now_ms + 500) (generate_timelock now_ms 1000)
   \<and> is_timelock_expired (now_ms + 1001) (generate_timelock now_ms 1000)
   \<and> (state e = Locked \<and> now_ms < timelock e \<longrightarrow> refund e now_ms = Inl TimelockNotExpired)
   \<and> (state e = Locked \<and> timelock e \<le> now_ms \<longrightarrow>
        refund e now_ms = Inr (e\<lparr>state := Refunded\<rparr>, (maker e, asset_amount e)))
   \<and> (state e = Locked \<and> timelock e = generate_timelock now_ms 1000 \<longrightarrow>
        refund e (now_ms + 500) = Inl TimelockNotExpired
      \<and> refund e (now_ms + 1001) = Inr (e\<lparr>state := Refunded\<rparr>, (maker e, asset_amount e)))"
  by (simp add: is_timelock_expired_def generate_timelock_def refund_def)

theorem timelock_expired_strict_witness:
  "refund \<lparr>escrow_id = ''1'', commitment = [], asset_amount = 5, maker = ''alice'',
            timelock = generate_timelock 7000 1000, metadata = [], state = Locked,
            revealed_secret = None\<rparr> 7500 = Inl TimelockNotExpired
   \<and> refund \<lparr>escrow_id = ''1'', commitment = [], asset_amount = 5, maker = ''alice'',
            timelock = generate_timelock 7000 1000, metadata = [], state = Locked,
            revealed_secret = None\<rparr> 8001
       = Inr (\<lparr>escrow_id = ''1'', commitment = [], asset_amount = 5, maker = ''alice'',
                timelock = generate_timelock 7000 1000, metadata = [], state = Refunded,
                revealed_secret = None\<rparr>, (''alice'', 5))
   \<and> \<not> is_timelock_expired 7500 (generate_timelock 7000 1000)
   \<and> is_timelock_expired 8001 (generate_timelock 7000 1000)"
  using timelock_expired_strict[of 7000 "generate_timelock 7000 1000"
      "\<lparr>escrow_id = ''1'', commitment = [], asset_amount = 5, maker = ''alice'',
            timelock = generate_timelock 7000 1000, metadata = [], state = Locked,
            revealed_secret = None\<rparr>"]
  by simp

text \<open>
  The claim as the specification states it (the check is true exactly when \<open>now \<ge> t\<close>, in
  particular at \<open>now = t\<close>) fails at the deadline itself.
\<close>

theorem timelock_expired_at_deadline_counterexample:
  "(1000::int) \<ge> 1000 \<and> \<not> is_timelock_expired 1000 1000"
  by (simp add: is_timelock_expired_def)

section \<open>Properties of the view queries\<close>

text \<open>
  Claim C1. The current-price query of the SDK is a placeholder: for every auction it
  returns \<^verbatim>\<open>"0"\<close>, whereas the price curve of the specification gives \<open>300000000\<close> halfway
  through an auction falling from \<open>500000000\<close> to \<open>100000000\<close> in \<open>3600000\<close> ms.
\<close>

theorem get_current_price_placeholder:
  "get_current_price auction_id = ''0''
   \<and> py_str (spec_current_price 500000000 100000000 start 3600000 (start + 1800000))
       = Inr ''300000000''"
  by (simp add: get_current_price_def spec_current_price_def trunc_div_def eval_py_str)

section \<open>Properties of the secret commitment\<close>

lemma hex_val_hex_digit: "d < 16 \<Longrightarrow> hex_val (hex_digit d) = d"
proof -
  assume "d < 16"
  then have "d = 0 \<or> d = 1 \<or> d = 2 \<or> d = 3 \<or> d = 4 \<or> d = 5 \<or> d = 6 \<or> d = 7 \<or> d = 8
      \<or> d = 9 \<or> d = 10 \<or> d = 11 \<or> d = 12 \<or> d = 13 \<or> d = 14 \<or> d = 15" by arith
  then show ?thesis
    by (auto simp: hex_val_def hex_digit_def is_digit_def)
qed

lemma byte_of_nibbles: "word_of_nat (16 * (unat b div 16) + unat b mod 16) = (b::byte)"
  by simp

lemma bytes_fromhex_hex_of_byte:
  "bytes_fromhex (hex_of_byte b @ rest) = b # bytes_fromhex rest"
proof -
  have "unat b div 16 < 16" using unsigned_less[of b, where ?'a = nat] by simp
  then show ?thesis
    using byte_of_nibbles[of b]
    by (simp add: hex_of_byte_def hex_val_hex_digit)
qed

lemma bytes_fromhex_concat: "bytes_fromhex (concat (map hex_of_byte bs)) = bs"
  by (induction bs) (simp_all add: bytes_fromhex_hex_of_byte)

lemma length_concat_hex: "length (concat (map hex_of_byte bs)) = 2 * length bs"
  by (induction bs) (simp_all add: hex_of_byte_def)

lemma nth_concat_hex:
  "i < length bs \<Longrightarrow>
     concat (map hex_of_byte bs) ! (2 * i) = hex_digit (unat (bs ! i) div 16)
   \<and> concat (map hex_of_byte bs) ! (2 * i + 1) = hex_digit (unat (bs ! i) mod 16)"
proof (induction bs arbitrary: i)
  case Nil
  then show ?case by simp
next
  case (Cons b bs)
  show ?case
  proof (cases i)
    case 0
    then show ?thesis by (simp add: hex_of_byte_def)
  next
    case (Suc j)
    with Cons.prems have "j < length bs" by simp
    from Cons.IH[OF this] Suc show ?thesis by (simp add: hex_of_byte_def)
  qed
qed

text \<open>
  Claim C6, as the code has it. For a hash function with 32-byte digests, every call of the
  secret generation returns a secret of 64 characters, the two lower-case hexadecimal digits
  of each of 32 bytes drawn from the random source, and a commitment that is the digest, as a
  list of 32 integers below 256, of the 64 bytes that are the character codes of that text.
\<close>

theorem generate_secret_commitment:
  assumes "\<And>m. length (sha3_256 m) = 32"
  shows "case generate_secret sha3_256 entropy of
           (secret, hash_list) \<Rightarrow>
             length secret = 64
           \<and> (\<forall>i<32. secret ! (2 * i) = ''0123456789abcdef'' ! (unat (entropy i) div 16)
                    \<and> secret ! (2 * i + 1) = ''0123456789abcdef'' ! (unat (entropy i) mod 16))
           \<and> bytes_fromhex secret = map entropy [0..<32]
           \<and> hash_list = map uint (sha3_256 (map (\<lambda>c. of_char c) secret))
           \<and> length (map (\<lambda>c. of_char c) secret :: byte list) = 64
           \<and> length hash_list = 32
           \<and> (\<forall>x\<in>set hash_list. 0 \<le> x \<and> x < 256)"
proof -
  let ?bs = "map entropy [0..<32]"
  let ?secret = "concat (map hex_of_byte ?bs)"
  have len: "length ?secret = 64" using length_concat_hex[of ?bs] by simp
  have digits: "\<forall>i<32. ?secret ! (2 * i) = ''0123456789abcdef'' ! (unat (entropy i) div 16)
                    \<and> ?secret ! (2 * i + 1) = ''0123456789abcdef'' ! (unat (entropy i) mod 16)"
  proof (intro allI impI)
    fix i :: nat
    assume i: "i < 32"
    then have "i < length ?bs" by simp
    from nth_concat_hex[OF this] i
    show "?secret ! (2 * i) = ''0123456789abcdef'' ! (unat (entropy i) div 16)
        \<and> ?secret ! (2 * i + 1) = ''0123456789abcdef'' ! (unat (entropy i) mod 16)"
      by (simp add: hex_digit_def)
  qed
  have fromhex: "bytes_fromhex ?secret = ?bs" by (rule bytes_fromhex_concat)
  have range: "\<forall>x\<in>set (map uint (sha3_256 (map (\<lambda>c. of_char c) ?secret))). 0 \<le> x \<and> x < 256"
  proof
    fix x assume "x \<in> set (map uint (sha3_256 (map (\<lambda>c. of_char c) ?secret)))"
    then obtain b :: byte where "x = uint b" by auto
    then show "0 \<le> x \<and> x < 256" using uint_bounded[of b] by simp
  qed
  have gen: "generate_secret sha3_256 entropy
               = (?secret, map uint (sha3_256 (map (\<lambda>c. of_char c) ?secret)))"
    by (simp add: generate_secret_def token_hex_def token_bytes_def encode_def Let_def)
  show ?thesis
    unfolding gen prod.case
    using len digits fromhex range assms by simp
qed

theorem generate_secret_commitment_witness:
  "length (fst (generate_secret (\<lambda>m. replicate 32 0) (\<lambda>i. word_of_nat i))) = 64
   \<and> fst (generate_secret (\<lambda>m. replicate 32 0) (\<lambda>i. word_of_nat i)) ! 20 = CHR ''0''
   \<and> fst (generate_secret (\<lambda>m. replicate 32 0) (\<lambda>i. word_of_nat i)) ! 21 = CHR ''a''
   \<and> snd (generate_secret (\<lambda>m. replicate 32 0) (\<lambda>i. word_of_nat i)) = replicate 32 0"
proof -
  have h: "\<And>m::byte list. length (replicate 32 (0::byte)) = 32" by simp
  have "\<forall>i<32. fst (generate_secret (\<lambda>m. replicate 32 0) (\<lambda>i. word_of_nat i)) ! (2 * i)
            = ''0123456789abcdef'' ! (unat (word_of_nat i :: byte) div 16)
          \<and> fst (generate_secret (\<lambda>m. replicate 32 0) (\<lambda>i. word_of_nat i)) ! (2 * i + 1)
            = ''0123456789abcdef'' ! (unat (word_of_nat i :: byte) mod 16)"
    and l: "length (fst (generate_secret (\<lambda>m. replicate 32 0) (\<lambda>i. word_of_nat i))) = 64"
    and s: "snd (generate_secret (\<lambda>m. replicate 32 0) (\<lambda>i. word_of_nat i)) = replicate 32 0"
    using generate_secret_commitment[of "\<lambda>m. replicate 32 0" "\<lambda>i. word_of_nat i", OF h]
    by (simp_all add: case_prod_unfold)
  then have "fst (generate_secret (\<lambda>m. replicate 32 0) (\<lambda>i. word_of_nat i)) ! (2 * 10)
            = ''0123456789abcdef'' ! (unat (word_of_nat 10 :: byte) div 16)
          \<and> fst (generate_secret (\<lambda>m. replicate 32 0) (\<lambda>i. word_of_nat i)) ! (2 * 10 + 1)
            = ''0123456789abcdef'' ! (unat (word_of_nat 10 :: byte) mod 16)"
    by (elim allE[of _ 10]) simp
  with l s show ?thesis by simp
qed

text \<open>
  The claim as the specification states it (the secret is a 32-byte value, and the commitment
  is the digest of that value's bytes) does not hold of the SDK: the returned secret has 64
  characters, and what is hashed are those 64 character codes, not the 32 random bytes. With
  a digest that records the length of its input the commitment differs from the digest of
  the 32 bytes.
\<close>

theorem generate_secret_not_raw_bytes_counterexample:
  "length (fst (generate_secret (\<lambda>m. replicate 31 0 @ [word_of_nat (length m)]) (\<lambda>i. 0))) = 64
   \<and> snd (generate_secret (\<lambda>m. replicate 31 0 @ [word_of_nat (length m)]) (\<lambda>i. 0))
       \<noteq> map uint ((\<lambda>m::byte list. replicate 31 (0::byte) @ [word_of_nat (length m)])
                    (map (\<lambda>i. 0) [0..<32]))
   \<and> snd (generate_secret (\<lambda>m. replicate 31 0 @ [word_of_nat (length m)]) (\<lambda>i. 0)) ! 31 = 64"
proof -
  let ?E = "\<lambda>i::nat. (0::byte)"
  have l: "length (concat (map hex_of_byte (map ?E [0..<32]))) = 64"
    using length_concat_hex[of "map ?E [0..<32]"] by simp
  then show ?thesis
    by (simp add: generate_secret_def token_hex_def token_bytes_def encode_def Let_def
          nth_append)
qed

section \<open>Properties of the event extraction\<close>





section \<open>Properties of the price monitor\<close>

lemma monitor_no_execute:
  "\<forall>a\<in>set (fst (monitor_auction_price obs aid iv fuel i)). \<not> is_execute a"
proof (induction fuel arbitrary: i)
  case 0
  then show ?case by simp
next
  case (Suc fuel)
  from Suc[of "Suc i"] show ?case
    by (auto split: sum.splits prod.splits)
qed

lemma monitor_finishes:
  assumes "sdk_is_auction_active obs (i + k) aid = Inr False" and "k < fuel"
  shows "snd (monitor_auction_price obs aid iv fuel i) = Finished
       \<and> length (yields (fst (monitor_auction_price obs aid iv fuel i))) \<le> k"
  using assms
proof (induction fuel arbitrary: i k)
  case 0
  then show ?case by simp
next
  case (Suc fuel)
  show ?case
  proof (cases k)
    case 0
    with Suc.prems show ?thesis by simp
  next
    case (Suc k')
    with Suc.prems have "sdk_is_auction_active obs (Suc i + k') aid = Inr False" "k' < fuel"
      by simp_all
    from Suc.IH[OF this] Suc show ?thesis
      by (auto split: sum.splits prod.splits)
  qed
qed

lemma monitor_finished_stable:
  "snd (monitor_auction_price obs aid iv fuel i) = Finished \<Longrightarrow>
   monitor_auction_price obs aid iv (fuel + n) i = monitor_auction_price obs aid iv fuel i"
proof (induction fuel arbitrary: i)
  case 0
  then show ?case by simp
next
  case (Suc fuel)
  from Suc.prems Suc.IH[of "Suc i"] show ?case
    by (auto split: sum.splits prod.splits if_splits)
qed

text \<open>
  Claim C9. If the monitor's \<open>k\<close>-th poll observes the auction inactive, then run for more
  than \<open>k\<close> iterations the generator has returned, it has yielded at most the \<open>k\<close> updates of
  the earlier polls, and running it longer adds nothing. Whatever it observes, none of its
  actions is the submission of a transaction: it only calls the two queries, yields, sleeps
  and prints.
\<close>

theorem monitor_stops_when_inactive:
  assumes "sdk_is_auction_active obs k aid = Inr False" and "k < fuel"
  shows "snd (monitor_auction_price obs aid iv fuel 0) = Finished
       \<and> length (yields (fst (monitor_auction_price obs aid iv fuel 0))) \<le> k
       \<and> monitor_auction_price obs aid iv (fuel + n) 0 = monitor_auction_price obs aid iv fuel 0
       \<and> (\<forall>a\<in>set (fst (monitor_auction_price obs aid iv fuel 0)). \<not> is_execute a)"
proof -
  from assms have fin: "snd (monitor_auction_price obs aid iv fuel 0) = Finished
       \<and> length (yields (fst (monitor_auction_price obs aid iv fuel 0))) \<le> k"
    using monitor_finishes[of obs 0 k aid fuel iv] by simp
  then show ?thesis
    using monitor_finished_stable[of obs aid iv fuel 0 n] monitor_no_execute[of obs aid iv fuel 0]
    by simp
qed

theorem monitor_stops_when_inactive_witness:
  "snd (monitor_auction_price
          \<lparr>sdk_is_auction_active = (\<lambda>i a. Inr (i < 2)),
             sdk_get_current_price = (\<lambda>i a. Inr ''1500000000''),
             time_s = (\<lambda>i. 100 + 30 * int i)\<rparr> 7 30 5 0) = Finished
   \<and> length (yields (fst (monitor_auction_price
          \<lparr>sdk_is_auction_active = (\<lambda>i a. Inr (i < 2)),
             sdk_get_current_price = (\<lambda>i a. Inr ''1500000000''),
             time_s = (\<lambda>i. 100 + 30 * int i)\<rparr> 7 30 5 0))) \<le> 2"
proof -
  let ?obs = "\<lparr>sdk_is_auction_active = (\<lambda>(i::nat) (a::int). (Inr (i < 2) :: error + bool)),
             sdk_get_current_price = (\<lambda>(i::nat) (a::int). (Inr ''1500000000'' :: error + string)),
             time_s = (\<lambda>i. 100 + 30 * int i)\<rparr>"
  have h1: "sdk_is_auction_active ?obs 2 7 = Inr False" by simp
  have h2: "(2::nat) < 5" by simp
  show ?thesis
    using monitor_stops_when_inactive[OF h1 h2, of 30 0] by simp
qed

section \<open>Properties of the escrow state machine\<close>

lemma run_ops_released:
  "state e = Released \<Longrightarrow> reached (run_ops sha e ops) = []"
  by (induction ops) (auto simp: release_def refund_def elim: apply_op.elims split: sum.splits)

lemma run_ops_refunded:
  "state e = Refunded \<Longrightarrow> reached (run_ops sha e ops) = []"
  by (induction ops) (auto simp: release_def refund_def elim: apply_op.elims split: sum.splits)

lemma apply_op_from_locked:
  assumes "apply_op sha e op = Inr (e', t)"
  shows "state e = Locked \<and> (state e' = Released \<or> state e' = Refunded)"
  using assms by (cases op) (auto simp: release_def refund_def split: if_splits)

lemma reached_from_locked:
  "reached (run_ops sha e ops) = [] \<or> reached (run_ops sha e ops) = [Released]
   \<or> reached (run_ops sha e ops) = [Refunded]"
proof (induction ops)
  case Nil
  then show ?case by simp
next
  case (Cons op ops)
  show ?case
  proof (cases "apply_op sha e op")
    case (Inl err)
    with Cons show ?thesis by simp
  next
    case (Inr r)
    obtain e' t where r: "r = (e', t)" by (cases r)
    from Inr r have "state e' = Released \<or> state e' = Refunded"
      using apply_op_from_locked by blast
    then show ?thesis
      using Inr r by (auto simp: run_ops_released run_ops_refunded)
  qed
qed

lemma final_escrow_terminal:
  "state e = Released \<or> state e = Refunded \<Longrightarrow> final_escrow sha e ops = e"
proof (induction ops)
  case Nil
  then show ?case by simp
next
  case (Cons op ops)
  have "\<exists>err. apply_op sha e op = Inl err"
    using Cons.prems apply_op_from_locked[of sha e op]
    by (cases "apply_op sha e op") auto
  with Cons show ?case by auto
qed

lemma final_escrow_append:
  "final_escrow sha e (ops @ later) = final_escrow sha (final_escrow sha e ops) later"
  by (induction ops arbitrary: e) (auto split: sum.splits)

text \<open>
  Claim C8. Starting from a locked escrow, no sequence of release and refund attempts reaches
  both \<open>Released\<close> and \<open>Refunded\<close>, and at most one attempt of the sequence succeeds. Once the
  escrow is released every refund fails with \<open>InvalidState\<close>, once it is refunded every
  release fails with \<open>InvalidState\<close>, and no later attempt changes the state again.
\<close>

theorem release_refund_exclusive:
  assumes "state e = Locked"
  shows "\<not> (Released \<in> set (reached (run_ops sha e ops))
           \<and> Refunded \<in> set (reached (run_ops sha e ops)))
       \<and> length (reached (run_ops sha e ops)) \<le> 1
       \<and> (state (final_escrow sha e ops) = Released \<longrightarrow>
            refund (final_escrow sha e ops) now = Inl InvalidState
          \<and> state (final_escrow sha e (ops @ later)) = Released)
       \<and> (state (final_escrow sha e ops) = Refunded \<longrightarrow>
            release sha (final_escrow sha e ops) secret beneficiary now = Inl InvalidState
          \<and> state (final_escrow sha e (ops @ later)) = Refunded)"
proof -
  have "\<not> (Released \<in> set (reached (run_ops sha e ops))
           \<and> Refunded \<in> set (reached (run_ops sha e ops)))"
    using reached_from_locked[of sha e ops] by auto
  moreover have "length (reached (run_ops sha e ops)) \<le> 1"
    using reached_from_locked[of sha e ops] by auto
  moreover have "state (final_escrow sha e (ops @ later)) = state (final_escrow sha e ops)"
    if "state (final_escrow sha e ops) = Released \<or> state (final_escrow sha e ops) = Refunded"
    using that by (simp add: final_escrow_append final_escrow_terminal)
  ultimately show ?thesis
    by (auto simp: refund_def release_def)
qed

theorem release_refund_exclusive_witness:
  "reached (run_ops (\<lambda>m. [])
      \<lparr>escrow_id = ''1'', commitment = [], asset_amount = 5, maker = ''alice'',
         timelock = 10, metadata = [], state = Locked, revealed_secret = None\<rparr>
      [Refund 3, Release ''s'' ''bob'' 4, Refund 20]) = [Released]
   \<and> refund (final_escrow (\<lambda>m. [])
      \<lparr>escrow_id = ''1'', commitment = [], asset_amount = 5, maker = ''alice'',
         timelock = 10, metadata = [], state = Locked, revealed_secret = None\<rparr>
      [Refund 3, Release ''s'' ''bob'' 4, Refund 20]) 20 = Inl InvalidState"
proof -
  let ?e = "\<lparr>escrow_id = ''1'', commitment = [], asset_amount = 5, maker = ''alice'',
         timelock = 10, metadata = [], state = Locked, revealed_secret = None\<rparr>"
  have h: "state ?e = Locked" by simp
  have r: "reached (run_ops (\<lambda>m. []) ?e [Refund 3, Release ''s'' ''bob'' 4, Refund 20]) = [Released]"
    by (simp add: refund_def release_def verify_def)
  have f: "state (final_escrow (\<lambda>m. []) ?e [Refund 3, Release ''s'' ''bob'' 4, Refund 20]) = Released"
    by (simp add: refund_def release_def verify_def)
  show ?thesis
    using r f release_refund_exclusive[OF h, of "\<lambda>m. []" "[Refund 3, Release ''s'' ''bob'' 4, Refund 20]" 20 "[]"]
    by simp
qed

section \<open>Properties of the rounding\<close>

lemma bitlen_lower: "0 < n \<Longrightarrow> 2 ^ bitlen n \<le> 2 * n"
proof (induction n rule: bitlen.induct)
  case (1 n)
  show ?case
  proof (cases "n div 2 = 0")
    case True
    with 1(2) have "n = 1" by (auto simp: div_eq_0_iff)
    then show ?thesis by (simp add: bitlen.simps[of 1] bitlen.simps[of 0] bitlen.simps[of "Suc 0"])
  next
    case False
    with 1 have "2 ^ bitlen (n div 2) \<le> 2 * (n div 2)" by simp
    moreover have "bitlen n = Suc (bitlen (n div 2))"
      using 1(2) by (subst bitlen.simps) simp
    ultimately show ?thesis by simp
  qed
qed

lemma bitlen_upper: "n < 2 ^ bitlen n"
proof (induction n rule: bitlen.induct)
  case (1 n)
  show ?case
  proof (cases "n = 0")
    case True
    then show ?thesis by (simp add: bitlen.simps[of 0])
  next
    case False
    with 1 have "n div 2 < 2 ^ bitlen (n div 2)" by simp
    moreover have "bitlen n = Suc (bitlen (n div 2))"
      using False by (subst bitlen.simps) simp
    ultimately show ?thesis by simp
  qed
qed

lemma bitlen_pos: "0 < n \<Longrightarrow> 0 < bitlen n"
  by (subst bitlen.simps) simp

lemma div_rhe_err:
  assumes "0 < q"
  shows "2 * p \<le> 2 * (div_rhe p q * q) + q" and "2 * (div_rhe p q * q) \<le> 2 * p + q"
proof -
  define d where "d = p div q"
  define r where "r = p mod q"
  have p: "p = d * q + r" by (simp add: d_def r_def)
  have r: "r < q" using assms by (simp add: r_def)
  have dr: "div_rhe p q = (if 2 * r < q then d else if q < 2 * r then d + 1
                           else if even d then d else d + 1)"
    by (simp add: div_rhe_def d_def r_def Let_def)
  consider (down) "div_rhe p q * q = d * q" and "2 * r \<le> q"
    | (up) "div_rhe p q * q = d * q + q" and "q \<le> 2 * r"
    by (cases "2 * r < q"; cases "q < 2 * r"; cases "even d") (auto simp: dr algebra_simps)
  then show "2 * p \<le> 2 * (div_rhe p q * q) + q"
    using p r by cases linarith+
  from \<open>0 < q\<close> consider (down) "div_rhe p q * q = d * q" and "2 * r \<le> q"
    | (up) "div_rhe p q * q = d * q + q" and "q \<le> 2 * r"
    by (cases "2 * r < q"; cases "q < 2 * r"; cases "even d") (auto simp: dr algebra_simps)
  then show "2 * (div_rhe p q * q) \<le> 2 * p + q"
    using p r by cases linarith+
qed

lemma div_rhe_unique:
  assumes "0 < q" and "2 * a < 2 * (n * q) + q" and "2 * (n * q) < 2 * a + q"
  shows "div_rhe a q = n"
proof (cases "n * q \<le> a")
  case True
  have "a < n * q + q" using assms by linarith
  then have "a < Suc n * q" by simp
  with True have d: "a div q = n"
    by (metis div_nat_eqI mult.commute)
  have "a = (a div q) * q + a mod q" by simp
  with d have m: "a = n * q + a mod q" by simp
  with assms have "2 * (a mod q) < q" by linarith
  with d show ?thesis by (simp add: div_rhe_def Let_def)
next
  case False
  then have "0 < n" by (cases n) auto
  then obtain n' where n: "n = Suc n'" by (cases n) auto
  have nq: "n * q = n' * q + q" by (simp add: n)
  from False assms nq have lo: "n' * q \<le> a" by linarith
  from False have "a < Suc n' * q" by (simp add: n)
  with lo have d: "a div q = n'"
    by (metis div_nat_eqI mult.commute)
  have "a = (a div q) * q + a mod q" by simp
  with d have m: "a = n' * q + a mod q" by simp
  with assms nq have "q < 2 * (a mod q)" by linarith
  with d n show ?thesis by (simp add: div_rhe_def Let_def)
qed

lemma floor_log2_ge:
  assumes "0 < p" and "0 < q"
  shows "ge_pow2 p q (floor_log2 p q)"
proof -
  define a where "a = bitlen p"
  define b where "b = bitlen q"
  define k where "k = int a - int b"
  have pa: "2 ^ a \<le> 2 * p" using assms(1) by (simp add: a_def bitlen_lower)
  have qb: "q < 2 ^ b" by (simp add: b_def bitlen_upper)
  have apos: "0 < a" using assms(1) by (simp add: a_def bitlen_pos)
  have fl: "floor_log2 p q = (if ge_pow2 p q k then k else k - 1)"
    by (simp add: floor_log2_def k_def a_def b_def Let_def)
  show ?thesis
  proof (cases "ge_pow2 p q k")
    case True
    with fl show ?thesis by simp
  next
    case False
    have "ge_pow2 p q (k - 1)"
    proof (cases "0 \<le> k - 1")
      case True
      then have ab: "a = nat (k - 1) + (b + 1)" by (simp add: k_def)
      have "q * 2 ^ a < 2 ^ b * 2 ^ a" using qb by simp
      also have "\<dots> \<le> 2 ^ b * (2 * p)" using pa by simp
      also have "\<dots> = p * 2 ^ (b + 1)" by simp
      finally have "q * 2 ^ nat (k - 1) * 2 ^ (b + 1) < p * 2 ^ (b + 1)"
        by (subst (asm) ab) (simp add: power_add)
      then have "q * 2 ^ nat (k - 1) < p" by simp
      with True show ?thesis by (simp add: ge_pow2_def)
    next
      case False
      then have ba: "b + 1 = nat (- (k - 1)) + a" by (simp add: k_def)
      have "q * 2 < 2 ^ (b + 1)" using qb by simp
      also have "\<dots> = 2 ^ nat (- (k - 1)) * 2 ^ a" by (subst ba) (simp add: power_add)
      also have "\<dots> \<le> 2 ^ nat (- (k - 1)) * (2 * p)" using pa by simp
      finally have "q < p * 2 ^ nat (- (k - 1))" by (simp add: mult.commute)
      with False show ?thesis by (simp add: ge_pow2_def)
    qed
    with False fl show ?thesis by simp
  qed
qed

lemma bitlen_billion: "bitlen 1000000000 = 30"
  by (simp add: bitlen.simps[of "numeral k" for k] bitlen.simps[of 0] bitlen.simps[of "Suc 0"]
        bitlen.simps[of 1])

text \<open>
  Below \<open>2 ^ 23 * 10 ^ 9\<close> the quotient \<open>n / 10 ^ 9\<close> is below \<open>2 ^ 23\<close>, so the float nearest
  to it is within \<open>2 ^ - 31\<close>, less than half a unit of the ninth decimal, of it: scaled by
  \<open>10 ^ 9\<close> and rounded it gives \<open>n\<close> back.
\<close>

lemma truediv_billion_exact:
  assumes "0 < n" and "n < 2 ^ 23 * 10 ^ 9"
  shows "\<exists>m e. int_truediv (int n) 1000000000 = Inr (Finite (int m) e) \<and> e < 0
               \<and> div_rhe (m * 10 ^ 9) (2 ^ nat (- e)) = n"
proof -
  define B :: nat where "B = 1000000000"
  define fl where "fl = floor_log2 n B"
  define K where "K = nat (52 - fl)"
  define m where "m = div_rhe (n * 2 ^ K) B"
  have Bpos: "0 < B" by (simp add: B_def)
  have ge: "ge_pow2 n B fl"
    unfolding fl_def using assms(1) Bpos by (rule floor_log2_ge)
  have "int (bitlen n) - int (bitlen B) - 1 \<le> fl"
    by (simp add: fl_def floor_log2_def Let_def)
  moreover have "0 < bitlen n" using assms(1) by (rule bitlen_pos)
  ultimately have fl_lo: "- 30 \<le> fl"
    by (simp add: B_def bitlen_billion)
  have fl_hi: "fl < 23"
  proof (rule ccontr)
    assume "\<not> fl < 23"
    then have f: "23 \<le> fl" by simp
    with ge have "B * 2 ^ nat fl \<le> n" by (simp add: ge_pow2_def)
    moreover have "(2::nat) ^ 23 \<le> 2 ^ nat fl" using f by (intro power_increasing) auto
    then have "B * 2 ^ 23 \<le> B * 2 ^ nat fl" by (rule mult_left_mono) simp
    ultimately have "B * 2 ^ 23 \<le> n" by (rule order_trans[rotated])
    with assms(2) show False by (simp add: B_def)
  qed
  have e: "max (fl - 52) (- 1074) = fl - 52" using fl_lo by simp
  have eneg: "fl - 52 < 0" using fl_hi by simp
  have "30 \<le> K" using fl_hi by (simp add: K_def)
  then have "(2::nat) ^ 30 \<le> 2 ^ K" by (intro power_increasing) auto
  moreover have "B < 2 ^ 30" by (simp add: B_def)
  ultimately have G2: "B < 2 ^ K" by (rule less_le_trans[rotated])
  have G3: "2 * (n * 2 ^ K) \<le> 2 * (m * B) + B" "2 * (m * B) \<le> 2 * (n * 2 ^ K) + B"
    using div_rhe_err[OF Bpos, of "n * 2 ^ K"] by (simp_all add: m_def)
  have G4: "div_rhe (m * B) (2 ^ K) = n"
    using G2 G3 by (intro div_rhe_unique) auto
  have rd: "round_to_double n B = Some (m, fl - 52)"
    using eneg by (simp add: round_to_double_def fl_def[symmetric] e Let_def K_def m_def)
  have "int_truediv (int n) 1000000000 = Inr (Finite (int m) (fl - 52))"
    using assms(1) rd by (simp add: int_truediv_def B_def)
  moreover have "div_rhe (m * 10 ^ 9) (2 ^ nat (- (fl - 52))) = n"
    using G4 by (simp add: K_def B_def)
  ultimately show ?thesis
    using eneg by blast
qed

text \<open>Evaluation of the float operations on numerals and literal strings.\<close>

lemma replicate_numeral_unfold: "replicate (numeral k) x = x # replicate (pred_numeral k) x"
  by (simp add: numeral_eq_Suc)

lemmas eval_round =
  round_to_double_def floor_log2_def ge_pow2_def div_rhe_def Let_def
  bitlen.simps[of "numeral k" for k] bitlen.simps[of 0] bitlen.simps[of "Suc 0"] bitlen.simps[of 1]

lemmas eval_format =
  format_sui_amount_def int_truediv_def format_f9_def zfill9_def rstrip_def
  replicate_numeral_unfold

lemmas eval_parse =
  parse_sui_amount_def py_float_def parse_decimal_def parse_mantissa_def parse_exponent_def
  split_at_def ndigits_def float_of_decimal_def round_signed_def float_of_int_def float_mul_def
  py_int_of_float_def to_lower_def

section \<open>Properties of the amount utilities\<close>

lemma set_dropWhile_keep: "c \<in> set s \<Longrightarrow> \<not> P c \<Longrightarrow> c \<in> set (dropWhile P s)"
  by (induction s) auto

lemma strip_keeps: "c \<in> set s \<Longrightarrow> \<not> is_space c \<Longrightarrow> c \<in> set (strip s)"
  using set_dropWhile_keep[of c "rev (dropWhile is_space s)" is_space]
    set_dropWhile_keep[of c s is_space]
  by (simp add: strip_def)

lemma valid_digits_chars: "valid_digits s \<Longrightarrow> c \<in> set s \<Longrightarrow> is_digit c \<or> c = CHR ''_''"
  by (induction s rule: valid_digits.induct) (auto split: if_splits)

lemma split_at_None: "split_at P s = (a, None) \<Longrightarrow> a = s"
  by (auto simp: split_at_def split: list.splits)

lemma split_at_Some_sep:
  "split_at P s = (a, Some b) \<Longrightarrow> \<exists>c. s = a @ c # b \<and> P c"
proof -
  assume "split_at P s = (a, Some b)"
  then obtain c where d: "dropWhile (\<lambda>c. \<not> P c) s = c # b" and "a = takeWhile (\<lambda>c. \<not> P c) s"
    by (auto simp: split_at_def split: list.splits)
  moreover from d have "P c" using hd_dropWhile[of "\<lambda>c. \<not> P c" s] by auto
  moreover from d have "s = takeWhile (\<lambda>c. \<not> P c) s @ c # b"
    by (metis takeWhile_dropWhile_id)
  ultimately show ?thesis by blast
qed

lemma parse_mantissa_chars:
  assumes "parse_mantissa s = Some r" and "c \<in> set s"
  shows "is_digit c \<or> c = CHR ''_'' \<or> c = CHR ''.''"
proof (cases "split_at (\<lambda>c. c = CHR ''.'') s")
  case (Pair a ob)
  show ?thesis
  proof (cases ob)
    case None
    with Pair have "a = s" by (simp add: split_at_None)
    with assms Pair None show ?thesis
      by (auto simp: parse_mantissa_def split: if_splits dest: valid_digits_chars)
  next
    case (Some b)
    with Pair obtain d where s: "s = a @ d # b" and d: "d = CHR ''.''"
      using split_at_Some_sep[of "\<lambda>c. c = CHR ''.''" s a b] by auto
    from assms(1) Pair Some have "a = [] \<or> valid_digits a" "b = [] \<or> valid_digits b"
      by (auto simp: parse_mantissa_def split: if_splits)
    with assms(2) s d show ?thesis
      by (auto dest: valid_digits_chars)
  qed
qed

lemma parse_exponent_chars:
  assumes "parse_exponent s = Some x" and "c \<in> set s"
  shows "is_digit c \<or> c = CHR ''_'' \<or> c = CHR ''-'' \<or> c = CHR ''+''"
  using assms
  by (cases s) (auto simp: parse_exponent_def split: if_splits dest: valid_digits_chars)

lemma parse_decimal_chars:
  assumes "parse_decimal s = Some r" and "c \<in> set s"
  shows "is_digit c \<or> c \<in> set ''_.-+eE''"
proof (cases "split_at (\<lambda>c. c = CHR ''e'' \<or> c = CHR ''E'') s")
  case (Pair a ob)
  show ?thesis
  proof (cases ob)
    case None
    with Pair have "a = s" by (simp add: split_at_None)
    with assms Pair None show ?thesis
      by (auto simp: parse_decimal_def split: option.splits dest: parse_mantissa_chars)
  next
    case (Some b)
    with Pair obtain d where s: "s = a @ d # b" and d: "d = CHR ''e'' \<or> d = CHR ''E''"
      using split_at_Some_sep[of "\<lambda>c. c = CHR ''e'' \<or> c = CHR ''E''" s a b] by auto
    from assms(1) Pair Some obtain r1 x where "parse_mantissa a = Some r1" "parse_exponent b = Some x"
      by (auto simp: parse_decimal_def split: option.splits)
    with assms(2) s d show ?thesis
      using parse_mantissa_chars[of a r1 c] parse_exponent_chars[of b x c] by auto
  qed
qed

text \<open>No float literal contains the letter \<^verbatim>\<open>U\<close>.\<close>

lemma py_float_rejects_U:
  assumes "CHR ''U'' \<in> set s"
  shows "py_float s = Inl ValueError"
proof -
  let ?t = "strip s"
  let ?body = "if ?t \<noteq> [] \<and> (hd ?t = CHR ''-'' \<or> hd ?t = CHR ''+'') then tl ?t else ?t"
  from assms have t: "CHR ''U'' \<in> set ?t"
    by (rule strip_keeps) (simp add: is_space_def)
  have body: "CHR ''U'' \<in> set ?body"
  proof (cases "?t \<noteq> [] \<and> (hd ?t = CHR ''-'' \<or> hd ?t = CHR ''+'')")
    case True
    then obtain c cs where "?t = c # cs" "c = CHR ''-'' \<or> c = CHR ''+''"
      by (cases ?t) auto
    with t show ?thesis by auto
  next
    case False
    with t show ?thesis by auto
  qed
  then have "to_lower CHR ''U'' \<in> set (map to_lower ?body)"
    unfolding set_map by (rule imageI)
  moreover have "to_lower CHR ''U'' = CHR ''u''"
  proof -
    have "of_char (to_lower CHR ''U'') = (of_char CHR ''u'' :: nat)"
      by (simp add: to_lower_def)
    then show ?thesis by (simp only: of_char_eq_iff)
  qed
  ultimately have low: "CHR ''u'' \<in> set (map to_lower ?body)" by (simp only:)
  have "map to_lower ?body \<noteq> ''inf''" "map to_lower ?body \<noteq> ''infinity''"
    "map to_lower ?body \<noteq> ''nan''"
    using low by auto
  moreover have "parse_decimal ?body = None"
  proof (cases "parse_decimal ?body")
    case None
    then show ?thesis .
  next
    case (Some r)
    from parse_decimal_chars[OF Some body] show ?thesis by (simp add: is_digit_def)
  qed
  ultimately show ?thesis
    by (simp add: py_float_def Let_def)
qed

lemma format_sui_amount_suffix:
  "format_sui_amount amount = Inr shown \<Longrightarrow> \<exists>x. shown = x @ '' SUI''"
  by (auto simp: format_sui_amount_def split: sum.splits)

text \<open>
  Claim C4, as the code has it. Whatever \<open>format_sui_amount\<close> returns ends in the asset
  symbol \<^verbatim>\<open>" SUI"\<close>, and \<open>parse_sui_amount\<close> rejects every such string with \<^verbatim>\<open>ValueError\<close>:
  parsing the display string of an amount never gives the amount back.
\<close>

theorem display_string_not_parseable:
  "format_sui_amount amount = Inr shown \<Longrightarrow>
     (\<exists>x. shown = x @ '' SUI'') \<and> parse_sui_amount shown = Inl ValueError"
proof -
  assume f: "format_sui_amount amount = Inr shown"
  then obtain x where x: "shown = x @ '' SUI''"
    using format_sui_amount_suffix by blast
  then have "CHR ''U'' \<in> set shown" by simp
  then have "py_float shown = Inl ValueError" by (rule py_float_rejects_U)
  then have "parse_sui_amount shown = Inl ValueError" by (simp add: parse_sui_amount_def)
  with x show ?thesis by blast
qed

theorem display_string_not_parseable_witness:
  "format_sui_amount ''1500000000'' = Inr ''1.5 SUI''
   \<and> (\<exists>x. ''1.5 SUI'' = x @ '' SUI'')
   \<and> parse_sui_amount ''1.5 SUI'' = Inl ValueError"
proof -
  have h: "format_sui_amount ''1500000000'' = Inr ''1.5 SUI''"
    by (simp add: eval_format eval_round eval_py_int eval_py_str)
  show ?thesis
    using h display_string_not_parseable[OF h] by simp
qed

text \<open>
  The claim as the specification states it (formatting \<open>n\<close> and parsing the display string
  returns \<open>n\<close>) fails at one SUI.
\<close>

theorem round_trip_counterexample:
  "format_sui_amount ''1000000000'' = Inr ''1 SUI''
   \<and> parse_sui_amount ''1 SUI'' = Inl ValueError"
proof -
  have "format_sui_amount ''1000000000'' = Inr ''1 SUI''"
    by (simp add: eval_format eval_round eval_py_int eval_py_str)
  moreover have "py_float ''1 SUI'' = Inl ValueError"
    by (rule py_float_rejects_U) simp
  ultimately show ?thesis by (simp add: parse_sui_amount_def)
qed

text \<open>
  Without the asset symbol the digits do not always come back either: the product of the
  parsed float and \<open>10 ^ 9\<close> is truncated, and for fifteen smallest units it lies just below
  fifteen.
\<close>

lemma parse_sui_amount_truncates: "parse_sui_amount ''0.000000015'' = Inr ''14''"
  by (simp add: eval_parse eval_round eval_py_int eval_py_str)

lemma rstrip_append:
  "rstrip c (xs @ ys) = (if \<forall>y\<in>set ys. y = c then rstrip c xs else xs @ rstrip c ys)"
  by (simp add: rstrip_def dropWhile_append)

lemma rstrip_id: "s \<noteq> [] \<Longrightarrow> last s \<noteq> c \<Longrightarrow> rstrip c s = s"
proof -
  assume "s \<noteq> []" and "last s \<noteq> c"
  then have "dropWhile (\<lambda>x. x = c) (rev s) = rev s"
    by (cases "rev s") (auto simp: last_rev[symmetric] hd_rev)
  then show ?thesis by (simp add: rstrip_def)
qed

lemma rstrip_rest:
  assumes "\<not> (\<forall>y\<in>set ys. y = c)"
  shows "rstrip c ys \<noteq> []" and "last (rstrip c ys) \<in> set ys" and "last (rstrip c ys) \<noteq> c"
proof -
  let ?d = "dropWhile (\<lambda>x. x = c) (rev ys)"
  from assms have ne: "?d \<noteq> []" by (auto simp: dropWhile_eq_Nil_conv)
  then show "rstrip c ys \<noteq> []" by (simp add: rstrip_def)
  from ne have l: "last (rstrip c ys) = hd ?d" by (simp add: rstrip_def last_rev)
  from ne have "hd ?d \<in> set ?d" by simp
  then have "hd ?d \<in> set (rev ys)" by (rule set_dropWhileD)
  with l show "last (rstrip c ys) \<in> set ys" by simp
  from ne have "\<not> (hd ?d = c)" using hd_dropWhile[of "\<lambda>x. x = c" "rev ys"] by simp
  with l show "last (rstrip c ys) \<noteq> c" by simp
qed

lemma digits_val_zeros: "digits_val (replicate k CHR ''0'') = 0"
  by (induction k) (simp_all add: digits_val_def digit_val_def)

lemma all_equal_replicate: "\<forall>c\<in>set s. c = x \<Longrightarrow> \<exists>k. s = replicate k x"
proof (induction s)
  case Nil
  then show ?case by simp
next
  case (Cons a s)
  then obtain k where "s = replicate k x" by auto
  with Cons.prems have "a # s = replicate (Suc k) x" by simp
  then show ?case by blast
qed

lemma dec_digits_all_zero: "(\<forall>c\<in>set (dec_digits f). c = CHR ''0'') \<longleftrightarrow> f = 0"
proof
  assume "\<forall>c\<in>set (dec_digits f). c = CHR ''0''"
  then have "\<exists>k. dec_digits f = replicate k CHR ''0''"
    by (rule all_equal_replicate)
  then obtain k where "dec_digits f = replicate k CHR ''0''" ..
  then have "digits_val (dec_digits f) = 0" by (simp only: digits_val_zeros)
  then show "f = 0" by (simp only: digits_val_dec_digits)
next
  assume "f = 0"
  then show "\<forall>c\<in>set (dec_digits f). c = CHR ''0''"
    by (simp add: dec_digits.simps[of 0] digit_char_def)
qed

lemma zfill9_all_zero: "(\<forall>c\<in>set (zfill9 f). c = CHR ''0'') \<longleftrightarrow> f = 0"
proof -
  have "(\<forall>c\<in>set (zfill9 f). c = CHR ''0'') \<longleftrightarrow> (\<forall>c\<in>set (dec_digits f). c = CHR ''0'')"
    unfolding zfill9_def by (simp add: ball_Un)
  then show ?thesis by (simp only: dec_digits_all_zero)
qed

lemma zfill9_digits: "c \<in> set (zfill9 f) \<Longrightarrow> is_digit c"
proof -
  assume "c \<in> set (zfill9 f)"
  then have "c = CHR ''0'' \<or> c \<in> set (dec_digits f)"
    unfolding zfill9_def by (simp split: if_splits) blast
  moreover have "is_digit CHR ''0''" by (simp add: is_digit_def)
  moreover have "c \<in> set (dec_digits f) \<Longrightarrow> is_digit c" using dec_digits_digits by blast
  ultimately show ?thesis by blast
qed

lemma trim_exact:
  "rstrip CHR ''.'' (rstrip CHR ''0'' (dec_digits ip @ ''.'' @ zfill9 f))
     = dec_digits ip @ (if f = 0 then [] else CHR ''.'' # rstrip CHR ''0'' (zfill9 f))"
proof -
  let ?ip = "dec_digits ip"
  have ipne: "?ip \<noteq> []" by (rule dec_digits_nonempty)
  then have "last ?ip \<in> set ?ip" by simp
  then have "is_digit (last ?ip)" using dec_digits_digits by blast
  then have "last ?ip \<noteq> CHR ''.''" by (auto simp: is_digit_def)
  note ip = ipne this
  show ?thesis
  proof (cases "f = 0")
    case True
    then have z: "\<forall>y\<in>set (zfill9 f). y = CHR ''0''" by (simp add: zfill9_all_zero)
    have "rstrip CHR ''0'' ((?ip @ ''.'') @ zfill9 f) = rstrip CHR ''0'' (?ip @ ''.'')"
      unfolding rstrip_append[of _ "dec_digits ip @ ''.''" "zfill9 f"] using z by (rule if_P)
    also have "\<dots> = ?ip @ ''.''" by (rule rstrip_id) simp_all
    finally have "rstrip CHR ''0'' (?ip @ ''.'' @ zfill9 f) = ?ip @ ''.''" by simp
    moreover have "rstrip CHR ''.'' (?ip @ ''.'') = rstrip CHR ''.'' ?ip"
      by (simp add: rstrip_append)
    moreover have "rstrip CHR ''.'' ?ip = ?ip" using ip by (rule rstrip_id)
    ultimately show ?thesis using True by simp
  next
    case False
    then have z: "\<not> (\<forall>y\<in>set (zfill9 f). y = CHR ''0'')" by (simp add: zfill9_all_zero)
    let ?z = "rstrip CHR ''0'' (zfill9 f)"
    have "rstrip CHR ''0'' ((?ip @ ''.'') @ zfill9 f) = (?ip @ ''.'') @ ?z"
      unfolding rstrip_append[of _ "dec_digits ip @ ''.''" "zfill9 f"] using z by (rule if_not_P)
    then have a: "rstrip CHR ''0'' (?ip @ ''.'' @ zfill9 f) = ?ip @ ''.'' @ ?z" by simp
    have zne: "?z \<noteq> []" and "last ?z \<in> set (zfill9 f)"
      using rstrip_rest[OF z] by simp_all
    then have "is_digit (last ?z)" by (simp add: zfill9_digits)
    then have "last ?z \<noteq> CHR ''.''" by (auto simp: is_digit_def)
    with zne have "rstrip CHR ''.'' (?ip @ ''.'' @ ?z) = ?ip @ ''.'' @ ?z"
      by (intro rstrip_id) simp_all
    with a False show ?thesis by simp
  qed
qed

lemma format_f9_exact:
  assumes "e < 0" and "div_rhe (m * 10 ^ 9) (2 ^ nat (- e)) = n"
  shows "format_f9 (Finite (int m) e)
           = dec_digits (n div 10 ^ 9) @ ''.'' @ zfill9 (n mod 10 ^ 9)"
  using assms by (simp add: format_f9_def Let_def)

lemma format_at_bound:
  "rstrip CHR ''.'' (rstrip CHR ''0'' (format_f9 (Finite 4503599627370496 (- 29)))) = ''8388608''"
  by (simp add: format_f9_def zfill9_def rstrip_def div_rhe_def Let_def replicate_numeral_unfold
        dec_digits.simps[of "numeral k" for k] dec_digits.simps[of 0] digit_char_def)

lemma truediv_at_bound:
  "int_truediv 8388608000000000 1000000000 = Inr (Finite 4503599627370496 (- 29))"
  by (simp add: int_truediv_def eval_round)

text \<open>
  Claim C5, as the code has it. For an amount of at most \<open>2 ^ 23 * 10 ^ 9\<close> smallest units
  (8388608 SUI) the formatter returns the exact decimal expansion of \<open>n / 10 ^ 9\<close>, only the
  trailing zeros of the fraction trimmed, followed by \<^verbatim>\<open>" SUI"\<close>. The bound is sharp: one
  smallest unit more is displayed with a wrong last digit.
\<close>

theorem format_exact_up_to_bound:
  assumes "py_int amount = Inr (int n)" and "n \<le> 2 ^ 23 * 10 ^ 9"
  shows "format_sui_amount amount = Inr (exact_display n)
       \<and> format_sui_amount ''8388608000000001'' = Inr ''8388608.000000002 SUI''
       \<and> exact_display 8388608000000001 = ''8388608.000000001 SUI''"
proof -
  have exact: "format_sui_amount amount = Inr (exact_display n)"
  proof (cases "n = 0")
    case True
    have "format_f9 (Finite 0 0) = dec_digits 0 @ ''.'' @ zfill9 0"
      by (simp add: format_f9_def)
    then have "rstrip CHR ''.'' (rstrip CHR ''0'' (format_f9 (Finite 0 0))) = dec_digits 0"
      using trim_exact[of 0 0] by simp
    with True assms(1) show ?thesis
      by (simp add: format_sui_amount_def int_truediv_def exact_display_def)
  next
    case False
    then have pos: "0 < n" by simp
    show ?thesis
    proof (cases "n = 8388608000000000")
      case True
      have "exact_display 8388608000000000 = ''8388608 SUI''"
        by (simp add: exact_display_def zfill9_def rstrip_def replicate_numeral_unfold
              dec_digits.simps[of "numeral k" for k] dec_digits.simps[of 0] digit_char_def)
      with True assms(1) show ?thesis
        by (simp add: format_sui_amount_def truediv_at_bound format_at_bound)
    next
      case False
      with assms(2) have "n < 2 ^ 23 * 10 ^ 9" by simp
      from truediv_billion_exact[OF pos this] obtain m e where
        t: "int_truediv (int n) 1000000000 = Inr (Finite (int m) e)" and e: "e < 0"
        and d: "div_rhe (m * 10 ^ 9) (2 ^ nat (- e)) = n" by blast
      have "rstrip CHR ''.'' (rstrip CHR ''0'' (format_f9 (Finite (int m) e)))
              = dec_digits (n div 10 ^ 9)
                @ (if n mod 10 ^ 9 = 0 then []
                   else CHR ''.'' # rstrip CHR ''0'' (zfill9 (n mod 10 ^ 9)))"
        by (simp only: format_f9_exact[OF e d] trim_exact)
      with assms(1) t show ?thesis
        by (simp add: format_sui_amount_def exact_display_def)
    qed
  qed
  have "format_sui_amount ''8388608000000001'' = Inr ''8388608.000000002 SUI''"
    by (simp add: eval_format eval_round eval_py_int eval_py_str)
  moreover have "exact_display 8388608000000001 = ''8388608.000000001 SUI''"
    by (simp add: exact_display_def zfill9_def rstrip_def eval_py_str replicate_numeral_unfold)
  ultimately show ?thesis using exact by simp
qed

theorem format_exact_up_to_bound_witness:
  "py_int ''1234567890'' = Inr (int 1234567890) \<and> (1234567890::nat) \<le> 2 ^ 23 * 10 ^ 9
   \<and> format_sui_amount ''1234567890'' = Inr ''1.23456789 SUI''"
proof -
  have h1: "py_int ''1234567890'' = Inr (int 1234567890)" by (simp add: eval_py_int)
  have h2: "(1234567890::nat) \<le> 2 ^ 23 * 10 ^ 9" by simp
  have "exact_display 1234567890 = ''1.23456789 SUI''"
    by (simp add: exact_display_def zfill9_def rstrip_def eval_py_str replicate_numeral_unfold)
  then show ?thesis
    using h1 h2 format_exact_up_to_bound[OF h1 h2] by simp
qed

text \<open>
  The claim as the specification states it (exact for every amount) fails for large amounts,
  where the float quotient no longer holds all digits: one smallest unit above \<open>10 ^ 17\<close> is
  displayed as \<open>10 ^ 17\<close>.
\<close>

theorem format_inexact_counterexample:
  "format_sui_amount ''100000000000000001'' = Inr ''100000000 SUI''
   \<and> exact_display 100000000000000001 = ''100000000.000000001 SUI''"
proof -
  have "format_sui_amount ''100000000000000001'' = Inr ''100000000 SUI''"
    by (simp add: eval_format eval_round eval_py_int eval_py_str)
  moreover have "exact_display 100000000000000001 = ''100000000.000000001 SUI''"
    by (simp add: exact_display_def zfill9_def rstrip_def eval_py_str replicate_numeral_unfold)
  ultimately show ?thesis by simp
qed

section \<open>Runs of the monitor\<close>

text \<open>
  With the SDK class itself, whose \<open>is_auction_active\<close> always answers \<open>True\<close>, the monitor
  never observes an inactive auction: it yields one update in every iteration and does not
  return.
\<close>

lemma format_zero: "format_sui_amount ''0'' = Inr ''0 SUI''"
  by (simp add: eval_format eval_round eval_py_int eval_py_str)

lemma monitor_placeholder_never_finishes:
  "snd (monitor_auction_price (placeholder_sdk clock) aid iv fuel i) = Suspended
   \<and> length (yields (fst (monitor_auction_price (placeholder_sdk clock) aid iv fuel i))) = fuel"
proof (induction fuel arbitrary: i)
  case 0
  then show ?case by simp
next
  case (Suc fuel)
  from Suc[of "Suc i"] show ?case
    by (auto simp: placeholder_sdk_def is_auction_active_def get_current_price_def format_zero
          split: prod.splits)
qed

text \<open>
  A run against an auction that is active for two polls: two updates, each followed by the
  sleep, then the third poll ends the generator.
\<close>

lemma monitor_example:
  "monitor_auction_price
          \<lparr>sdk_is_auction_active = (\<lambda>i a. Inr (i < 2)),
             sdk_get_current_price = (\<lambda>i a. Inr ''1500000000''),
             time_s = (\<lambda>i. 100 + 30 * int i)\<rparr> 7 30 5 0
   = ([CallIsAuctionActive 7, CallGetCurrentPrice 7,
       Yield \<lparr>timestamp = 100, price = ''1500000000'', formatted_price = ''1.5 SUI''\<rparr>, Sleep 30,
       CallIsAuctionActive 7, CallGetCurrentPrice 7,
       Yield \<lparr>timestamp = 130, price = ''1500000000'', formatted_price = ''1.5 SUI''\<rparr>, Sleep 30,
       CallIsAuctionActive 7], Finished)"
proof -
  have f: "format_sui_amount ''1500000000'' = Inr ''1.5 SUI''"
    by (simp add: eval_format eval_round eval_py_int eval_py_str)
  show ?thesis
    by (simp add: eval_nat_numeral f)
qed

end
